theory Spec2Isabelle
  imports Complex_Main
begin

section \<open>JavaScript values and objects\<close>

text \<open>
  The repository is a TypeScript single-page client with serverless handlers. Strings are
  modelled as HOL strings (lists of 8-bit code units); a value of type
  \<^verbatim>\<open>string | undefined | null\<close> is a \<open>string option\<close>. An exception is a value of
  \<open>js_error\<close>; a function that may throw returns a sum whose left side is the exception.
\<close>

datatype js_error = TypeError string | Error string

text \<open>Truthiness of an optional string: \<^verbatim>\<open>undefined\<close>, \<^verbatim>\<open>null\<close> and \<^verbatim>\<open>""\<close> are falsy.\<close>

definition truthy :: "string option \<Rightarrow> bool" where
  "truthy v = (case v of None \<Rightarrow> False | Some s \<Rightarrow> s \<noteq> [])"

definition truthy_strings :: "string option \<Rightarrow> string list" where
  "truthy_strings v = (case v of None \<Rightarrow> [] | Some s \<Rightarrow> if s = [] then [] else [s])"

text \<open>\<^verbatim>\<open>v || d\<close> on an optional string.\<close>

definition or_else :: "string option \<Rightarrow> string \<Rightarrow> string" where
  "or_else v d = (case v of None \<Rightarrow> d | Some s \<Rightarrow> if s = [] then d else s)"

text \<open>
  A plain object literal \<^verbatim>\<open>{}\<close> used as a dictionary (\<^verbatim>\<open>Record<string, T>\<close>) is the list
  of its own properties in creation order. Reading \<^verbatim>\<open>obj[k]\<close> finds an own property, or
  else a property inherited from \<^verbatim>\<open>Object.prototype\<close> (all of them are functions, except
  the accessor \<^verbatim>\<open>__proto__\<close>, which returns \<^verbatim>\<open>Object.prototype\<close> itself; every one is
  truthy), or else \<^verbatim>\<open>undefined\<close>.
\<close>

type_synonym 'a js_object = "(string \<times> 'a) list"

definition object_prototype_names :: "string list" where
  "object_prototype_names =
     [''constructor'', ''__defineGetter__'', ''__defineSetter__'', ''hasOwnProperty'',
      ''__lookupGetter__'', ''__lookupSetter__'', ''isPrototypeOf'', ''propertyIsEnumerable'',
      ''toString'', ''valueOf'', ''__proto__'', ''toLocaleString'']"

datatype 'a property = Own 'a | Inherited | Undefined

definition get_property :: "'a js_object \<Rightarrow> string \<Rightarrow> 'a property" where
  "get_property obj k =
     (case map_of obj k of
        Some v \<Rightarrow> Own v
      | None \<Rightarrow> if k \<in> set object_prototype_names then Inherited else Undefined)"

text \<open>Assignment \<^verbatim>\<open>obj[k] = v\<close> to a data property: an own property keeps its place, a new
  one is created last.\<close>

fun set_property :: "'a js_object \<Rightarrow> string \<Rightarrow> 'a \<Rightarrow> 'a js_object" where
  "set_property [] k v = [(k, v)]"
| "set_property ((k', v') # obj) k v =
     (if k' = k then (k, v) # obj else (k', v') # set_property obj k v)"

text \<open>
  \<^verbatim>\<open>Object.entries\<close> lists own properties in the order of OrdinaryOwnPropertyKeys: first
  the keys that are array indices (canonical decimal numerals below \<open>2^32 - 1\<close>) in ascending
  numeric order, then all other string keys in creation order.
\<close>

definition is_digit :: "char \<Rightarrow> bool" where
  "is_digit c = (48 \<le> (of_char c :: nat) \<and> (of_char c :: nat) \<le> 57)"

definition decimal_value :: "string \<Rightarrow> nat" where
  "decimal_value s = foldl (\<lambda>n c. 10 * n + ((of_char c :: nat) - 48)) 0 s"

definition is_array_index :: "string \<Rightarrow> bool" where
  "is_array_index s =
     (s \<noteq> [] \<and> list_all is_digit s \<and> (s = ''0'' \<or> hd s \<noteq> CHR ''0'') \<and>
      decimal_value s < 4294967295)"

definition Object_entries :: "'a js_object \<Rightarrow> (string \<times> 'a) list" where
  "Object_entries obj =
     sort_key (\<lambda>p. decimal_value (fst p)) (filter (\<lambda>p. is_array_index (fst p)) obj) @
     filter (\<lambda>p. \<not> is_array_index (fst p)) obj"

text \<open>
  \<^verbatim>\<open>Array.prototype.sort\<close> with a comparator is stable; a comparator result \<^verbatim>\<open>NaN\<close>
  (here \<open>None\<close>) counts as \<open>0\<close> (SortCompare). For a consistent comparator, such as a
  difference of numbers, the stable sorted order is unique; \<open>Array_sort\<close> computes it by
  insertion: elements are inserted from the right, each in front of the first element
  that it need not follow. For an inconsistent comparator the language leaves the order to
  the implementation, so \<open>Array_sort\<close> is used only where the comparator is consistent
  (see \<open>sort_features\<close>).
\<close>

definition SortCompare :: "('a \<Rightarrow> 'a \<Rightarrow> int option) \<Rightarrow> 'a \<Rightarrow> 'a \<Rightarrow> int" where
  "SortCompare comparefn a b = (case comparefn a b of None \<Rightarrow> 0 | Some v \<Rightarrow> v)"

fun insert_stable :: "('a \<Rightarrow> 'a \<Rightarrow> int option) \<Rightarrow> 'a \<Rightarrow> 'a list \<Rightarrow> 'a list" where
  "insert_stable comparefn x [] = [x]"
| "insert_stable comparefn x (y # ys) =
     (if SortCompare comparefn x y \<le> 0 then x # y # ys
      else y # insert_stable comparefn x ys)"

definition Array_sort :: "('a \<Rightarrow> 'a \<Rightarrow> int option) \<Rightarrow> 'a list \<Rightarrow> 'a list" where
  "Array_sort comparefn xs = foldr (insert_stable comparefn) xs []"

text \<open>\<^verbatim>\<open>Array.prototype.forEach\<close> with a callback that may throw: the first exception ends
  the loop.\<close>

fun forEach :: "('s \<Rightarrow> 'a \<Rightarrow> js_error + 's) \<Rightarrow> 's \<Rightarrow> 'a list \<Rightarrow> js_error + 's" where
  "forEach f s [] = Inr s"
| "forEach f s (x # xs) = (case f s x of Inl e \<Rightarrow> Inl e | Inr s' \<Rightarrow> forEach f s' xs)"

subsection \<open>Numbers\<close>

text \<open>
  A JavaScript number is an IEEE 754 double. A finite double is modelled as the real number
  it denotes, and an arithmetic operation gives the exact result rounded to the nearest
  double, ties going to the even significand (\<open>to_double\<close>). For \<open>x > 0\<close>, \<open>binade x\<close> is
  the exponent \<open>e\<close> with \<open>2^e \<le> x < 2^(e+1)\<close>; the doubles of that binade are the multiples
  of \<open>2^(e-52)\<close>, and below \<open>2^-1022\<close> the spacing stays \<open>2^-1074\<close>. The operands below are
  counts of list elements and the number 100, so no result comes near \<open>2^1024\<close>, where a
  double overflows to \<^verbatim>\<open>Infinity\<close>; \<^verbatim>\<open>NaN\<close> is \<open>None\<close> where it can arise.
\<close>

fun bit_length :: "nat \<Rightarrow> nat" where
  "bit_length n = (if n = 0 then 0 else Suc (bit_length (n div 2)))"

declare bit_length.simps [simp del]

definition binade :: "real \<Rightarrow> int" where
  "binade x =
     (if 1 \<le> x then int (bit_length (nat \<lfloor>x\<rfloor>)) - 1
      else - int (bit_length (nat (\<lceil>1 / x\<rceil> - 1))))"

definition round_half_even :: "real \<Rightarrow> int" where
  "round_half_even m =
     (let f = \<lfloor>m\<rfloor>; d = m - of_int f
      in if d < 1 / 2 then f else if 1 / 2 < d then f + 1 else if even f then f else f + 1)"

definition to_double :: "real \<Rightarrow> real" where
  "to_double x =
     (if x = 0 then 0
      else let e = max (binade \<bar>x\<bar>) (- 1022); ulp = 2 powi (e - 52)
           in sgn x * of_int (round_half_even (\<bar>x\<bar> / ulp)) * ulp)"

text \<open>The operators \<^verbatim>\<open>/\<close> and \<^verbatim>\<open>*\<close> on finite numbers, the divisor not zero.\<close>

definition js_divide :: "real \<Rightarrow> real \<Rightarrow> real" where
  "js_divide a b = to_double (a / b)"

definition js_times :: "real \<Rightarrow> real \<Rightarrow> real" where
  "js_times a b = to_double (a * b)"

section \<open>The analytics page: aggregation of insight records\<close>

subsection \<open>Rows of the insights table, as the page types them\<close>

record ExecutiveSummaryDB =
  whatWeLearned :: "string option"
  whatToBuildNext :: "string option"

record PainPointDB =
  point :: "string option"
  severity :: "string option"

record QuoteDB =
  quote :: "string option"
  speaker :: "string option"
  sentiment :: "string option"

record ObjectionDB =
  objection :: "string option"
  objection_type :: "string option"

record ProductIdeaDB =
  idea :: "string option"
  source :: "string option"

record ProjectJoin =
  title :: string

record InsightRecord =
  insight_id :: string
  project_id :: string
  user_id :: string
  summary_text :: "string option"
  key_learnings :: "ExecutiveSummaryDB option"
  pain_points :: "PainPointDB list option"
  quotes :: "QuoteDB list option"
  objections :: "ObjectionDB list option"
  product_ideas :: "ProductIdeaDB list option"
  created_at :: string
  projects :: "ProjectJoin option"

subsection \<open>Aggregated values shown by the page\<close>

text \<open>
  Frequencies are JavaScript numbers: doubles, with \<open>None\<close> for \<^verbatim>\<open>NaN\<close>. A count is a
  natural number: it grows by one for each element of a list, and stays far below \<open>2^53\<close>,
  up to where a double holds every integer.
\<close>

record AggregatedPainPoint =
  pain_point :: string
  pain_frequency :: real
  pain_responses :: nat

text \<open>
  \<^verbatim>\<open>featureCounts\<close> is declared \<^verbatim>\<open>Record<string, number>\<close>, but at run time it can hold a
  string (see \<open>feature_step\<close>), so the count of a feature is a number or a string.
\<close>

datatype count_value = Num nat | Str string

record AggregatedFeatureRequest =
  feature :: string
  feature_frequency :: "real option"
  feature_responses :: count_value

record DisplayQuote =
  dq_quote :: "string option"
  dq_speaker :: "string option"
  dq_sentiment :: "string option"
  project_title :: string
  respondent :: "string option"

datatype insight_type = pain | opportunity | pricing | objection_insight | summary
datatype impact_level = high | medium | low

record DisplayKeyInsight =
  insight_type :: insight_type
  insight_title :: string
  description :: string
  impact :: impact_level
  project :: string
  insight_responses :: nat

record ExecutiveSummary =
  learned :: "string list"
  build :: "string list"

record OverviewStats =
  totalInterviews :: nat
  topPainPointText :: string
  keyInsightText :: string

record AnalyticsState =
  executiveSummary :: ExecutiveSummary
  topPainPoints :: "AggregatedPainPoint list"
  topFeatureRequests :: "AggregatedFeatureRequest list"
  displayQuotes :: "DisplayQuote list"
  displayKeyInsights :: "DisplayKeyInsight list"
  overviewStats :: OverviewStats

text \<open>The initial values of the \<^verbatim>\<open>useState\<close> hooks of the page.\<close>

definition initial_analytics :: AnalyticsState where
  "initial_analytics =
     \<lparr>executiveSummary = \<lparr>learned = [], build = []\<rparr>,
      topPainPoints = [], topFeatureRequests = [], displayQuotes = [], displayKeyInsights = [],
      overviewStats = \<lparr>totalInterviews = 0, topPainPointText = ''N/A'', keyInsightText = ''N/A''\<rparr>\<rparr>"

subsection \<open>Counting pain points\<close>

record pain_count =
  count :: nat
  severities :: "string list"

text \<open>
  The body of the inner \<^verbatim>\<open>forEach\<close> over \<^verbatim>\<open>i.pain_points\<close>. When the text names an
  inherited property, \<^verbatim>\<open>painPointCounts[pp.point]\<close> is that inherited (truthy) object: no
  entry is created, \<^verbatim>\<open>count++\<close> lands on the inherited object, and
  \<^verbatim>\<open>.severities.push\<close> reads \<^verbatim>\<open>undefined.push\<close>, a TypeError.
\<close>

definition pain_point_step :: "pain_count js_object \<Rightarrow> PainPointDB \<Rightarrow> js_error + pain_count js_object" where
  "pain_point_step painPointCounts pp =
     (case point pp of
        None \<Rightarrow> Inr painPointCounts
      | Some k \<Rightarrow>
          if k = [] then Inr painPointCounts
          else
            let counts1 =
                  (case get_property painPointCounts k of
                     Undefined \<Rightarrow> set_property painPointCounts k \<lparr>count = 0, severities = []\<rparr>
                   | _ \<Rightarrow> painPointCounts)
            in (case get_property counts1 k of
                  Own e \<Rightarrow>
                    Inr (set_property counts1 k
                           \<lparr>count = count e + 1,
                            severities = severities e @ truthy_strings (severity pp)\<rparr>)
                | Inherited \<Rightarrow>
                    if truthy (severity pp)
                    then Inl (TypeError ''Cannot read properties of undefined (reading 'push')'')
                    else Inr counts1
                | Undefined \<Rightarrow>
                    Inl (TypeError ''Cannot read properties of undefined (reading 'count')'')))"

definition count_pain_points :: "InsightRecord list \<Rightarrow> js_error + pain_count js_object" where
  "count_pain_points insights =
     forEach (\<lambda>c i. case pain_points i of None \<Rightarrow> Inr c | Some pps \<Rightarrow> forEach pain_point_step c pps)
       [] insights"

text \<open>
  The ranking of the pain points; \<open>n\<close> is \<^verbatim>\<open>insights.length\<close>, which is not zero where the
  page computes the ranking. The frequency \<^verbatim>\<open>(data.count / insights.length) * 100\<close> is
  computed in doubles: the quotient is rounded, and so is the product.
\<close>

definition aggregate_pains :: "pain_count js_object \<Rightarrow> nat \<Rightarrow> AggregatedPainPoint list" where
  "aggregate_pains painPointCounts n =
     take 5
       (Array_sort (\<lambda>a b. Some (int (pain_responses b) - int (pain_responses a)))
          (map (\<lambda>(p, d). \<lparr>pain_point = p,
                           pain_frequency = js_times (js_divide (of_nat (count d)) (of_nat n)) 100,
                           pain_responses = count d\<rparr>)
               (Object_entries painPointCounts)))"

subsection \<open>Counting feature requests\<close>

text \<open>
  The text of a built-in function as \<^verbatim>\<open>Function.prototype.toString\<close> prints it (the form
  V8 uses; the standard fixes only its shape).
\<close>

definition native_function_text :: "string \<Rightarrow> string" where
  "native_function_text k =
     ''function '' @ (if k = ''constructor'' then ''Object'' else k) @ ''() { [native code] }''"

text \<open>
  The body of the inner \<^verbatim>\<open>forEach\<close> over \<^verbatim>\<open>i.product_ideas\<close>:
  \<^verbatim>\<open>featureCounts[idea.idea] = (featureCounts[idea.idea] || 0) + 1\<close>. When the text names
  an inherited function, \<^verbatim>\<open>+\<close> concatenates the function's text with \<^verbatim>\<open>"1"\<close> and the
  string becomes an own property; assigning a string to \<^verbatim>\<open>__proto__\<close> is ignored by
  its setter.
\<close>

definition feature_step :: "count_value js_object \<Rightarrow> ProductIdeaDB \<Rightarrow> count_value js_object" where
  "feature_step featureCounts i =
     (case idea i of
        None \<Rightarrow> featureCounts
      | Some k \<Rightarrow>
          if k = [] then featureCounts
          else
            (case get_property featureCounts k of
               Own (Num n) \<Rightarrow> set_property featureCounts k (Num (n + 1))
             | Own (Str s) \<Rightarrow>
                 set_property featureCounts k (if s = [] then Num 1 else Str (s @ ''1''))
             | Inherited \<Rightarrow>
                 if k = ''__proto__'' then featureCounts
                 else set_property featureCounts k (Str (native_function_text k @ ''1''))
             | Undefined \<Rightarrow> set_property featureCounts k (Num 1)))"

definition count_features :: "InsightRecord list \<Rightarrow> count_value js_object" where
  "count_features insights =
     fold (\<lambda>i c. case product_ideas i of None \<Rightarrow> c
                  | Some ideas \<Rightarrow> fold (\<lambda>x c'. feature_step c' x) ideas c)
       insights []"

text \<open>\<^verbatim>\<open>ToNumber\<close> of a count: the strings that \<open>feature_step\<close> stores are function texts,
  which are not numeric literals.\<close>

definition to_number :: "count_value \<Rightarrow> int option" where
  "to_number v = (case v of Num n \<Rightarrow> Some (int n) | Str s \<Rightarrow> None)"

definition js_minus :: "count_value \<Rightarrow> count_value \<Rightarrow> int option" where
  "js_minus a b =
     (case to_number a of None \<Rightarrow> None
      | Some x \<Rightarrow> (case to_number b of None \<Rightarrow> None | Some y \<Rightarrow> Some (x - y)))"

text \<open>
  The comparator \<^verbatim>\<open>(a, b) => b.responses - a.responses\<close> gives \<^verbatim>\<open>NaN\<close> whenever one of
  the two counts is a string. On a list of entries it is a consistent comparator when
  every count is a number, and also when the counts that are numbers are all equal (then
  any two entries compare as equal); the result is then the stable sorted order. In every
  other case two entries with different numbers both compare as equal to an entry whose
  count is a string, the comparator is inconsistent, and the order of the result is the
  choice of the engine in which the page runs: \<open>engine_sort\<close>, a parameter, stands for
  what that engine returns.
\<close>

definition consistent_counts :: "count_value list \<Rightarrow> bool" where
  "consistent_counts cs =
     (list_all (\<lambda>c. to_number c \<noteq> None) cs \<or>
      length (remdups (concat (map (\<lambda>c. case to_number c of None \<Rightarrow> [] | Some x \<Rightarrow> [x]) cs))) \<le> 1)"

definition sort_features ::
  "(AggregatedFeatureRequest list \<Rightarrow> AggregatedFeatureRequest list) \<Rightarrow>
   AggregatedFeatureRequest list \<Rightarrow> AggregatedFeatureRequest list" where
  "sort_features engine_sort entries =
     (if consistent_counts (map feature_responses entries)
      then Array_sort (\<lambda>a b. js_minus (feature_responses b) (feature_responses a)) entries
      else engine_sort entries)"

definition aggregate_features ::
  "(AggregatedFeatureRequest list \<Rightarrow> AggregatedFeatureRequest list) \<Rightarrow>
   count_value js_object \<Rightarrow> nat \<Rightarrow> AggregatedFeatureRequest list" where
  "aggregate_features engine_sort featureCounts n =
     take 5
       (sort_features engine_sort
          (map (\<lambda>(f, c). \<lparr>feature = f,
                           feature_frequency =
                             (case to_number c of None \<Rightarrow> None
                              | Some x \<Rightarrow> Some (js_times (js_divide (of_int x) (of_nat n)) 100)),
                           feature_responses = c\<rparr>)
               (Object_entries featureCounts)))"

subsection \<open>Quotes, key insights and the whole pass\<close>

definition project_title_or :: "InsightRecord \<Rightarrow> string \<Rightarrow> string" where
  "project_title_or i d =
     (case projects i of None \<Rightarrow> d | Some p \<Rightarrow> if title p = [] then d else title p)"

definition collect_quotes :: "InsightRecord list \<Rightarrow> DisplayQuote list" where
  "collect_quotes insights =
     concat (map (\<lambda>i. case quotes i of
                         None \<Rightarrow> []
                       | Some qs \<Rightarrow>
                           map (\<lambda>q. \<lparr>dq_quote = quote q, dq_speaker = speaker q,
                                      dq_sentiment = sentiment q,
                                      project_title = project_title_or i ''Unknown Project'',
                                      respondent = (if speaker q = Some ''User''
                                                    then Some ''Interviewee'' else speaker q)\<rparr>)
                               (filter (\<lambda>q. truthy (quote q)) qs))
                 insights)"

definition collect_key_insights :: "InsightRecord list \<Rightarrow> DisplayKeyInsight list" where
  "collect_key_insights insights =
     concat (map (\<lambda>i. case summary_text i of
                         None \<Rightarrow> []
                       | Some t \<Rightarrow>
                           if t = [] then []
                           else [\<lparr>insight_type = summary,
                                  insight_title = take 100 t @ (if length t > 100 then ''...'' else []),
                                  description = project_title_or i ''General Insight'',
                                  impact = medium,
                                  project = project_title_or i ''N/A'',
                                  insight_responses = 1\<rparr>])
                 (take 5 insights))"

text \<open>
  \<^verbatim>\<open>learnedPoints[0]?.substring(0,50) + (learnedPoints[0]?.length > 50 ? '...' : '') || "N/A"\<close>:
  \<^verbatim>\<open>+\<close> binds tighter than \<^verbatim>\<open>||\<close>, and \<^verbatim>\<open>undefined + ''\<close> is the string
  \<^verbatim>\<open>"undefined"\<close>.
\<close>

definition key_insight_text :: "string list \<Rightarrow> string" where
  "key_insight_text learnedPoints =
     (let first_part = (case learnedPoints of [] \<Rightarrow> ''undefined'' | s # _ \<Rightarrow> take 50 s);
          dots = (case learnedPoints of [] \<Rightarrow> []
                  | s # _ \<Rightarrow> if length s > 50 then ''...'' else []);
          shown = first_part @ dots
      in if shown = [] then ''N/A'' else shown)"

definition top_pain_point_text :: "AggregatedPainPoint list \<Rightarrow> string" where
  "top_pain_point_text aggregatedPains =
     (case aggregatedPains of [] \<Rightarrow> ''N/A''
      | p # _ \<Rightarrow> if pain_point p = [] then ''N/A'' else pain_point p)"

text \<open>
  \<^verbatim>\<open>processDataForDisplay\<close>. The setters called before an exception have taken effect, so
  a thrown exception comes with the state reached. The first argument is the sort of the
  engine in which the page runs (see \<open>sort_features\<close>).
\<close>

definition processDataForDisplay ::
  "(AggregatedFeatureRequest list \<Rightarrow> AggregatedFeatureRequest list) \<Rightarrow>
   AnalyticsState \<Rightarrow> InsightRecord list \<Rightarrow> (js_error \<times> AnalyticsState) + AnalyticsState" where
  "processDataForDisplay engine_sort st insights =
     (if insights = []
      then Inr (st\<lparr>overviewStats :=
                     \<lparr>totalInterviews = 0, topPainPointText = ''N/A'', keyInsightText = ''N/A''\<rparr>\<rparr>)
      else
        let learnedPoints =
              concat (map (\<lambda>i. case key_learnings i of None \<Rightarrow> []
                                | Some kl \<Rightarrow> truthy_strings (whatWeLearned kl)) insights);
            buildPoints =
              concat (map (\<lambda>i. case key_learnings i of None \<Rightarrow> []
                                | Some kl \<Rightarrow> truthy_strings (whatToBuildNext kl)) insights);
            st1 = st\<lparr>executiveSummary := \<lparr>learned = take 5 learnedPoints, build = take 5 buildPoints\<rparr>\<rparr>
        in (case count_pain_points insights of
              Inl e \<Rightarrow> Inl (e, st1)
            | Inr painPointCounts \<Rightarrow>
                let aggregatedPains = aggregate_pains painPointCounts (length insights);
                    aggregatedFeatures =
                      aggregate_features engine_sort (count_features insights) (length insights)
                in Inr (st1\<lparr>topPainPoints := aggregatedPains,
                            topFeatureRequests := aggregatedFeatures,
                            displayQuotes := take 5 (collect_quotes insights),
                            displayKeyInsights := collect_key_insights insights,
                            overviewStats :=
                              \<lparr>totalInterviews = length insights,
                               topPainPointText = top_pain_point_text aggregatedPains,
                               keyInsightText = key_insight_text learnedPoints\<rparr>\<rparr>)))"

section \<open>The interview page\<close>

subsection \<open>String operations\<close>

text \<open>
  \<^verbatim>\<open>String.prototype.toLowerCase\<close> on the code units that a HOL character can hold (the
  Latin-1 range): the letters A to Z and the accented capitals move to their small forms.
\<close>

definition upper_case_chars :: "char list" where
  "upper_case_chars = ''ABCDEFGHIJKLMNOPQRSTUVWXYZ'' @
     [CHR 0xC0, CHR 0xC1, CHR 0xC2, CHR 0xC3, CHR 0xC4, CHR 0xC5, CHR 0xC6, CHR 0xC7,
      CHR 0xC8, CHR 0xC9, CHR 0xCA, CHR 0xCB, CHR 0xCC, CHR 0xCD, CHR 0xCE, CHR 0xCF,
      CHR 0xD0, CHR 0xD1, CHR 0xD2, CHR 0xD3, CHR 0xD4, CHR 0xD5, CHR 0xD6,
      CHR 0xD8, CHR 0xD9, CHR 0xDA, CHR 0xDB, CHR 0xDC, CHR 0xDD, CHR 0xDE]"

definition lower_case_chars :: "char list" where
  "lower_case_chars = ''abcdefghijklmnopqrstuvwxyz'' @
     [CHR 0xE0, CHR 0xE1, CHR 0xE2, CHR 0xE3, CHR 0xE4, CHR 0xE5, CHR 0xE6, CHR 0xE7,
      CHR 0xE8, CHR 0xE9, CHR 0xEA, CHR 0xEB, CHR 0xEC, CHR 0xED, CHR 0xEE, CHR 0xEF,
      CHR 0xF0, CHR 0xF1, CHR 0xF2, CHR 0xF3, CHR 0xF4, CHR 0xF5, CHR 0xF6,
      CHR 0xF8, CHR 0xF9, CHR 0xFA, CHR 0xFB, CHR 0xFC, CHR 0xFD, CHR 0xFE]"

definition lower_char :: "char \<Rightarrow> char" where
  "lower_char c =
     (case map_of (zip upper_case_chars lower_case_chars) c of None \<Rightarrow> c | Some l \<Rightarrow> l)"

definition toLowerCase :: "string \<Rightarrow> string" where
  "toLowerCase s = map lower_char s"

text \<open>\<^verbatim>\<open>String.prototype.trim\<close>: white space and line terminators are removed at both ends.\<close>

definition is_whitespace :: "char \<Rightarrow> bool" where
  "is_whitespace c = ((of_char c :: nat) \<in> {9, 10, 11, 12, 13, 32, 160})"

definition trim :: "string \<Rightarrow> string" where
  "trim s = rev (dropWhile is_whitespace (rev (dropWhile is_whitespace s)))"

text \<open>\<^verbatim>\<open>String.prototype.includes\<close>: the pattern starts at some position of the string.\<close>

fun string_includes :: "string \<Rightarrow> string \<Rightarrow> bool" where
  "string_includes [] p = (p = [])"
| "string_includes (c # s) p = (take (length p) (c # s) = p \<or> string_includes s p)"

subsection \<open>State of the page and of the hosted store\<close>

datatype sender = Ai | User

record Message =
  msg_id :: string
  msg_type :: sender
  content :: string
  timestamp :: string

record ProjectDetails =
  pd_id :: string
  pd_title :: string
  product_idea_prompt :: "string option"
  pd_user_id :: string
  interview_guide :: "string list option"

record FounderPersona =
  persona_name :: "string option"
  companyName :: "string option"

record InterviewPage =
  messages :: "Message list"
  currentMessage :: string
  isTyping :: bool
  interviewStarted :: bool
  page_error :: "string option"
  projectDetails :: "ProjectDetails option"
  founderPersona :: "FounderPersona option"
  currentInterviewId :: "string option"
  interviewConcluded :: bool
  insightsLoading :: bool
  insightsError :: "string option"
  insightsSuccess :: bool

text \<open>JSON values, as the insight extractor returns them and as the insights table stores
  them.\<close>

datatype json =
  JNull | JBool bool | JNum rat | JStr string | JArr "json list" | JObj "(string \<times> json) list"

text \<open>The tables of the hosted store. The rows of a table are kept in the order of their
  generated ids, which is the order of insertion.\<close>

record ConversationRow =
  interview_id :: string
  sender_type :: string
  row_content :: string

record InterviewRow =
  interview_row_id :: string
  status :: string
  completed_at :: "string option"

record InsightRow =
  ins_interview_id :: string
  ins_project_id :: string
  ins_user_id :: string
  ins_summary_text :: json
  ins_key_learnings :: json
  ins_pain_points :: json
  ins_quotes :: json
  ins_objections :: json
  ins_product_ideas :: json

record Database =
  conversations :: "ConversationRow list"
  interviews :: "InterviewRow list"
  insights_rows :: "InsightRow list"

text \<open>
  \<^verbatim>\<open>supabase.from(t).insert(row)\<close> resolves to an object with an \<^verbatim>\<open>error\<close> field and does
  not throw; the page ignores that object for the conversations table, so a failed insert
  passes silently. Whether a request reaches the store is decided outside the program.
\<close>

definition insert_conversation :: "bool \<Rightarrow> ConversationRow \<Rightarrow> Database \<Rightarrow> Database" where
  "insert_conversation ok row db = (if ok then db\<lparr>conversations := conversations db @ [row]\<rparr> else db)"

definition complete_interview :: "bool \<Rightarrow> string \<Rightarrow> string \<Rightarrow> Database \<Rightarrow> Database" where
  "complete_interview ok interview_key now db =
     (if ok
      then db\<lparr>interviews :=
                 map (\<lambda>r. if interview_row_id r = interview_key
                           then r\<lparr>status := ''completed'', completed_at := Some now\<rparr> else r)
                     (interviews db)\<rparr>
      else db)"

text \<open>The result \<^verbatim>\<open>{ data, error }\<close> of \<^verbatim>\<open>supabase.functions.invoke\<close>: an error, or
  the data of a call that succeeded. For the \<^verbatim>\<open>ai-interviewer\<close> function the data is the
  object that the function sends, whose \<^verbatim>\<open>error\<close> and \<^verbatim>\<open>aiResponse\<close> members are strings
  when they are present.\<close>

datatype 'a invoke_result = FunctionsError string | Data 'a

record AiResponseData =
  ai_error :: "string option"
  aiResponse :: "string option"

text \<open>What the world outside the page supplies during one call of \<^verbatim>\<open>handleSendMessage\<close>:
  the readings of the clock, the fate of each request to the store, and the reply of the
  \<^verbatim>\<open>ai-interviewer\<close> function.\<close>

record SendEnv =
  user_now_ms :: string
  user_now_iso :: string
  insert_user_ok :: bool
  ai_reply :: "AiResponseData invoke_result"
  ai_now_ms :: string
  ai_now_iso :: string
  insert_ai_ok :: bool
  completed_now_iso :: string
  update_ok :: bool

subsection \<open>Sending a reply\<close>

definition userMessage :: "SendEnv \<Rightarrow> string \<Rightarrow> Message" where
  "userMessage env userMsgContent =
     \<lparr>msg_id = user_now_ms env, msg_type = User, content = userMsgContent,
      timestamp = user_now_iso env\<rparr>"

definition aiMessage :: "SendEnv \<Rightarrow> string \<Rightarrow> Message" where
  "aiMessage env aiMsgContent =
     \<lparr>msg_id = ai_now_ms env, msg_type = Ai, content = aiMsgContent, timestamp = ai_now_iso env\<rparr>"

definition errorAiMsg :: "SendEnv \<Rightarrow> Message" where
  "errorAiMsg env =
     \<lparr>msg_id = ai_now_ms env, msg_type = Ai,
      content = ''I seem to be having some trouble connecting. Please try again in a moment.'',
      timestamp = ai_now_iso env\<rparr>"

text \<open>The two checks on the reply of the function; each throws an \<^verbatim>\<open>Error\<close>, which the
  \<^verbatim>\<open>catch\<close> of \<^verbatim>\<open>handleSendMessage\<close> receives.\<close>

definition ai_message_content :: "AiResponseData invoke_result \<Rightarrow> js_error + string" where
  "ai_message_content reply =
     (case reply of
        FunctionsError m \<Rightarrow> Inl (Error (''AI Function Error: '' @ m))
      | Data d \<Rightarrow>
          if truthy (ai_error d) then Inl (Error (''AI Response Error: '' @ the (ai_error d)))
          else Inr (or_else (aiResponse d) ''Sorry, I had a glitch. Could you repeat that?''))"

text \<open>
  \<^verbatim>\<open>handleSendMessage\<close>. The handler is created anew at every rendering, so the
  \<^verbatim>\<open>messages\<close> it closes over are those of the state it is called in. The request to the
  function carries the product idea, the persona, the last ten messages and the reply;
  the answer comes from outside (\<open>ai_reply\<close>). Every exception of the \<^verbatim>\<open>try\<close> block is
  caught: the result is always on the right.
\<close>

definition handleSendMessage ::
  "SendEnv \<Rightarrow> InterviewPage \<times> Database \<Rightarrow> js_error + (InterviewPage \<times> Database)" where
  "handleSendMessage env st =
     (let page = fst st; db = snd st in
      if trim (currentMessage page) = [] \<or> projectDetails page = None \<or>
         founderPersona page = None \<or> \<not> truthy (currentInterviewId page) \<or>
         interviewConcluded page
      then Inr st
      else
        let userMsgContent = trim (currentMessage page);
            interview_key = the (currentInterviewId page);
            page1 = page\<lparr>messages := messages page @ [userMessage env userMsgContent],
                         currentMessage := [], isTyping := True\<rparr>;
            db1 = insert_conversation (insert_user_ok env)
                    \<lparr>interview_id = interview_key, sender_type = ''user'',
                     row_content = userMsgContent\<rparr> db
        in (case ai_message_content (ai_reply env) of
              Inl err \<Rightarrow>
                Inr (page1\<lparr>messages := messages page1 @ [errorAiMsg env], isTyping := False\<rparr>, db1)
            | Inr aiMsgContent \<Rightarrow>
                let page2 = page1\<lparr>messages := messages page1 @ [aiMessage env aiMsgContent]\<rparr>;
                    db2 = insert_conversation (insert_ai_ok env)
                            \<lparr>interview_id = interview_key, sender_type = ''ai'',
                             row_content = aiMsgContent\<rparr> db1;
                    updatedMessages =
                      messages page @ [userMessage env userMsgContent, aiMessage env aiMsgContent];
                    userMessageCount = length (filter (\<lambda>m. msg_type m = User) updatedMessages)
                in if userMessageCount \<ge> 4 \<or>
                      string_includes (toLowerCase aiMsgContent) ''thank you for your time''
                   then Inr (page2\<lparr>interviewConcluded := True, isTyping := False\<rparr>,
                             complete_interview (update_ok env) interview_key
                               (completed_now_iso env) db2)
                   else Inr (page2\<lparr>isTyping := False\<rparr>, db2)))"

text \<open>The respondent types a reply and sends it; a list of replies is sent one after the
  other, each with its own outside world.\<close>

definition submitReply ::
  "SendEnv \<Rightarrow> string \<Rightarrow> InterviewPage \<times> Database \<Rightarrow> js_error + (InterviewPage \<times> Database)" where
  "submitReply env reply st = handleSendMessage env ((fst st)\<lparr>currentMessage := reply\<rparr>, snd st)"

fun submitReplies ::
  "(SendEnv \<times> string) list \<Rightarrow> InterviewPage \<times> Database \<Rightarrow> js_error + (InterviewPage \<times> Database)" where
  "submitReplies [] st = Inr st"
| "submitReplies (r # rs) st =
     (case submitReply (fst r) (snd r) st of Inl e \<Rightarrow> Inl e | Inr st' \<Rightarrow> submitReplies rs st')"

text \<open>The states of the session, read off the page: an interview is in progress when the
  project, the persona and the interview id are loaded and the interview has not been
  concluded.\<close>

definition in_progress :: "InterviewPage \<Rightarrow> bool" where
  "in_progress page =
     (projectDetails page \<noteq> None \<and> founderPersona page \<noteq> None \<and>
      truthy (currentInterviewId page) \<and> \<not> interviewConcluded page)"



section \<open>Insight extraction\<close>

subsection \<open>JSON values in JavaScript expressions\<close>

text \<open>A JavaScript value here is \<^verbatim>\<open>undefined\<close> (\<open>None\<close>) or a JSON value.\<close>

definition truthy_json :: "json option \<Rightarrow> bool" where
  "truthy_json v =
     (case v of
        None \<Rightarrow> False
      | Some JNull \<Rightarrow> False
      | Some (JBool b) \<Rightarrow> b
      | Some (JNum n) \<Rightarrow> n \<noteq> 0
      | Some (JStr s) \<Rightarrow> s \<noteq> []
      | Some (JArr xs) \<Rightarrow> True
      | Some (JObj kvs) \<Rightarrow> True)"

text \<open>
  Member access \<^verbatim>\<open>v.k\<close> for the keys that the page reads (\<^verbatim>\<open>error\<close>,
  \<^verbatim>\<open>executiveSummary\<close>, \<^verbatim>\<open>whatWeLearned\<close>, \<^verbatim>\<open>painPoints\<close>, \<^verbatim>\<open>notableQuotes\<close>,
  \<^verbatim>\<open>objections\<close>, \<^verbatim>\<open>productIdeas\<close>), none of which any prototype defines: an object
  gives its own property, every other value but \<^verbatim>\<open>null\<close> gives \<^verbatim>\<open>undefined\<close>, and
  \<^verbatim>\<open>null\<close> and \<^verbatim>\<open>undefined\<close> throw a TypeError whose message names the key between
  single quotes (the wording of V8). The optional form \<^verbatim>\<open>v?.k\<close> gives \<^verbatim>\<open>undefined\<close>
  instead of throwing.
\<close>

definition optional_member :: "json option \<Rightarrow> string \<Rightarrow> json option" where
  "optional_member v k = (case v of Some (JObj kvs) \<Rightarrow> map_of kvs k | _ \<Rightarrow> None)"

definition member :: "json option \<Rightarrow> string \<Rightarrow> js_error + json option" where
  "member v k =
     (case v of
        None \<Rightarrow>
          Inl (TypeError (''Cannot read properties of undefined (reading '' @
                          [CHR 0x27] @ k @ [CHR 0x27] @ '')''))
      | Some JNull \<Rightarrow>
          Inl (TypeError (''Cannot read properties of null (reading '' @
                          [CHR 0x27] @ k @ [CHR 0x27] @ '')''))
      | Some w \<Rightarrow> Inr (optional_member (Some w) k))"

text \<open>\<^verbatim>\<open>v || d\<close> with a JSON default.\<close>

definition json_or :: "json option \<Rightarrow> json \<Rightarrow> json" where
  "json_or v d = (if truthy_json v then the v else d)"

text \<open>
  \<^verbatim>\<open>String(v)\<close>, which \<^verbatim>\<open>new Error(v)\<close> applies to its argument. The text of a number
  is given by the library's \<^verbatim>\<open>Number.prototype.toString\<close>, a parameter here.
\<close>

fun to_string :: "(rat \<Rightarrow> string) \<Rightarrow> json \<Rightarrow> string" where
  "to_string num JNull = ''null''"
| "to_string num (JBool b) = (if b then ''true'' else ''false'')"
| "to_string num (JNum n) = num n"
| "to_string num (JStr s) = s"
| "to_string num (JObj kvs) = ''[object Object]''"
| "to_string num (JArr xs) =
     concat (map (\<lambda>p. (if fst p then [] else '','') @ snd p)
               (zip (True # replicate (length xs - 1) False)
                    (map (\<lambda>x. if x = JNull then [] else to_string num x) xs)))"

definition error_message :: "js_error \<Rightarrow> string" where
  "error_message e = (case e of TypeError m \<Rightarrow> m | Error m \<Rightarrow> m)"

subsection \<open>The serverless function process-interview-insights\<close>

record InsightsRequest =
  productIdea :: string
  requestPersona :: FounderPersona
  fullConversation :: "(string \<times> string) list"

record Response =
  http_status :: nat
  body :: json

text \<open>
  What the world outside supplies to one extraction run: the outcome of the chat
  completion (an exception with its message, or the content of the first choice, which may
  be missing), the library's \<^verbatim>\<open>JSON.parse\<close> (the message of its SyntaxError, or the parsed
  value), and for the page the fate of its requests.
\<close>

record InsightsEnv =
  completion_content :: "string + string option"
  JSON_parse :: "string \<Rightarrow> string + json"
  Number_toString :: "rat \<Rightarrow> string"
  convoError :: "string option"
  invoke_fetch_error :: "string option"
  saveError :: "string option"

definition error_response :: "nat \<Rightarrow> string \<Rightarrow> Response" where
  "error_response code msg = \<lparr>http_status = code, body = JObj [(''error'', JStr msg)]\<rparr>"

text \<open>
  The handler \<^verbatim>\<open>serve\<close> for a POST request. The prompt built by
  \<^verbatim>\<open>generateInsightPrompt\<close> asks for the five keys and for at most 5, 5, 3 and 3 list
  entries; it is sent to the model, whose answer is outside the program, and nothing
  after the call reads it again. The parsed answer is returned as it is.
\<close>

definition serve :: "InsightsEnv \<Rightarrow> InsightsRequest \<Rightarrow> Response" where
  "serve env req =
     (if productIdea req = [] \<or> fullConversation req = []
      then error_response 400
             ''Missing required fields: productIdea, founderPersona, or fullConversation''
      else
        (case completion_content env of
           Inl msg \<Rightarrow>
             error_response 500 (if msg = [] then ''Failed to process interview insights'' else msg)
         | Inr rawResponse \<Rightarrow>
             if \<not> truthy rawResponse
             then error_response 500 ''OpenAI returned an empty response.''
             else
               (case JSON_parse env (the rawResponse) of
                  Inl errorMessage \<Rightarrow>
                    error_response 500
                      (''OpenAI response was not valid JSON. Error: '' @ errorMessage @
                       ''. Raw response: '' @ the rawResponse)
                | Inr parsed \<Rightarrow> \<lparr>http_status = 200, body = parsed\<rparr>)))"

text \<open>\<^verbatim>\<open>supabase.functions.invoke\<close>: a request that cannot be sent and a status outside
  200 to 299 give an error and no data; otherwise the data is the parsed body.\<close>

definition functions_invoke :: "string option \<Rightarrow> Response \<Rightarrow> json invoke_result" where
  "functions_invoke fetch_error response =
     (case fetch_error of
        Some m \<Rightarrow> FunctionsError m
      | None \<Rightarrow>
          if 200 \<le> http_status response \<and> http_status response < 300
          then Data (body response)
          else FunctionsError ''Edge Function returned a non-2xx status code'')"

subsection \<open>The page's processInsights\<close>

text \<open>The row that the page inserts into the insights table.\<close>

definition insight_row :: "string \<Rightarrow> ProjectDetails \<Rightarrow> json \<Rightarrow> InsightRow" where
  "insight_row interview_key details extracted =
     \<lparr>ins_interview_id = interview_key,
      ins_project_id = pd_id details,
      ins_user_id = pd_user_id details,
      ins_summary_text =
        json_or (optional_member (optional_member (Some extracted) ''executiveSummary'')
                   ''whatWeLearned'') (JStr []),
      ins_key_learnings = json_or (optional_member (Some extracted) ''executiveSummary'') (JObj []),
      ins_pain_points = json_or (optional_member (Some extracted) ''painPoints'') (JArr []),
      ins_quotes = json_or (optional_member (Some extracted) ''notableQuotes'') (JArr []),
      ins_objections = json_or (optional_member (Some extracted) ''objections'') (JArr []),
      ins_product_ideas = json_or (optional_member (Some extracted) ''productIdeas'') (JArr [])\<rparr>"

text \<open>The \<^verbatim>\<open>try\<close> block of \<^verbatim>\<open>processInsights\<close>: an exception, or the store after the
  insert.\<close>

definition extract_and_save ::
  "InsightsEnv \<Rightarrow> string \<Rightarrow> ProjectDetails \<Rightarrow> FounderPersona \<Rightarrow> Database \<Rightarrow> js_error + Database" where
  "extract_and_save env interview_key details persona db =
     (case convoError env of
        Some m \<Rightarrow> Inl (Error (if m = [] then ''Failed to fetch conversation'' else m))
      | None \<Rightarrow>
          let convoData = filter (\<lambda>r. interview_id r = interview_key) (conversations db);
              conversation =
                map (\<lambda>r. (if sender_type r = ''ai'' then ''ai'' else ''user'', row_content r))
                    convoData;
              request = \<lparr>productIdea = or_else (product_idea_prompt details) (pd_title details),
                         requestPersona = persona, fullConversation = conversation\<rparr>
          in (case functions_invoke (invoke_fetch_error env) (serve env request) of
                FunctionsError m \<Rightarrow> Inl (Error m)
              | Data extracted \<Rightarrow>
                  (case member (Some extracted) ''error'' of
                     Inl e \<Rightarrow> Inl e
                   | Inr err \<Rightarrow>
                       if truthy_json err
                       then Inl (Error (to_string (Number_toString env) (the err)))
                       else
                         (case saveError env of
                            Some m \<Rightarrow> Inl (Error m)
                          | None \<Rightarrow>
                              Inr (db\<lparr>insights_rows := insights_rows db @
                                         [insight_row interview_key details extracted]\<rparr>)))))"

text \<open>\<^verbatim>\<open>processInsights\<close>, the effect that runs when the interview is concluded. It
  catches every exception of its \<^verbatim>\<open>try\<close> block and shows the message.\<close>

definition processInsights :: "InsightsEnv \<Rightarrow> InterviewPage \<times> Database \<Rightarrow> InterviewPage \<times> Database" where
  "processInsights env st =
     (let page = fst st; db = snd st in
      if \<not> interviewConcluded page \<or> \<not> truthy (currentInterviewId page) \<or>
         projectDetails page = None \<or> founderPersona page = None
      then st
      else
        let page1 = page\<lparr>insightsLoading := True, insightsError := None, insightsSuccess := False\<rparr>
        in (case extract_and_save env (the (currentInterviewId page)) (the (projectDetails page))
                   (the (founderPersona page)) db of
              Inl err \<Rightarrow>
                (page1\<lparr>insightsError := Some (error_message err), insightsSuccess := False,
                        insightsLoading := False\<rparr>, db)
            | Inr db' \<Rightarrow> (page1\<lparr>insightsSuccess := True, insightsLoading := False\<rparr>, db')))"

text \<open>The output contract of the specification: exactly the five top-level fields and the
  caps on the four lists.\<close>

definition json_length_at_most :: "json option \<Rightarrow> nat \<Rightarrow> bool" where
  "json_length_at_most v n = (case v of Some (JArr xs) \<Rightarrow> length xs \<le> n | _ \<Rightarrow> False)"

definition satisfies_output_contract :: "json \<Rightarrow> bool" where
  "satisfies_output_contract v =
     (case v of
        JObj kvs \<Rightarrow>
          distinct (map fst kvs) \<and>
          set (map fst kvs) =
            {''executiveSummary'', ''painPoints'', ''notableQuotes'', ''objections'', ''productIdeas''} \<and>
          json_length_at_most (map_of kvs ''painPoints'') 5 \<and>
          json_length_at_most (map_of kvs ''notableQuotes'') 5 \<and>
          json_length_at_most (map_of kvs ''objections'') 3 \<and>
          json_length_at_most (map_of kvs ''productIdeas'') 3
      | _ \<Rightarrow> False)"

text \<open>A concluded interview whose page can run the extraction.\<close>

definition ready_for_insights :: "InterviewPage \<Rightarrow> bool" where
  "ready_for_insights page =
     (interviewConcluded page \<and> truthy (currentInterviewId page) \<and>
      projectDetails page \<noteq> None \<and> founderPersona page \<noteq> None)"

section \<open>Example states\<close>

text \<open>A project, its founder, a store with one started interview, and a page on which that
  interview is open with the given messages, draft reply and conclusion flag.\<close>

definition example_project :: ProjectDetails where
  "example_project =
     \<lparr>pd_id = ''project-1'', pd_title = ''Meal-planning app'',
      product_idea_prompt = Some ''Meal-planning app'', pd_user_id = ''founder-1'',
      interview_guide = None\<rparr>"

definition example_persona :: FounderPersona where
  "example_persona = \<lparr>persona_name = Some ''Founder'', companyName = Some ''Meal-planning app''\<rparr>"

definition example_db :: Database where
  "example_db =
     \<lparr>conversations = [],
      interviews = [\<lparr>interview_row_id = ''interview-1'', status = ''started'', completed_at = None\<rparr>],
      insights_rows = []\<rparr>"

definition example_page :: "Message list \<Rightarrow> string \<Rightarrow> bool \<Rightarrow> InterviewPage" where
  "example_page msgs draft concluded =
     \<lparr>messages = msgs, currentMessage = draft, isTyping = False, interviewStarted = True,
      page_error = None, projectDetails = Some example_project,
      founderPersona = Some example_persona, currentInterviewId = Some ''interview-1'',
      interviewConcluded = concluded, insightsLoading = False, insightsError = None,
      insightsSuccess = False\<rparr>"

definition example_message :: "sender \<Rightarrow> string \<Rightarrow> Message" where
  "example_message who t = \<lparr>msg_id = ''1'', msg_type = who, content = t, timestamp = ''t''\<rparr>"

text \<open>An outside world in which every request to the store succeeds and the
  \<^verbatim>\<open>ai-interviewer\<close> function gives the stated reply.\<close>

definition example_env :: "AiResponseData invoke_result \<Rightarrow> SendEnv" where
  "example_env reply =
     \<lparr>user_now_ms = ''1700000000000'', user_now_iso = ''2023-11-14T22:13:20.000Z'',
      insert_user_ok = True, ai_reply = reply,
      ai_now_ms = ''1700000000901'', ai_now_iso = ''2023-11-14T22:13:20.900Z'',
      insert_ai_ok = True, completed_now_iso = ''2023-11-14T22:13:21.000Z'', update_ok = True\<rparr>"

text \<open>An engine whose sort is the insertion of \<open>Array_sort\<close> for every comparator, consistent
  or not.\<close>

definition insertion_sort_engine ::
  "AggregatedFeatureRequest list \<Rightarrow> AggregatedFeatureRequest list" where
  "insertion_sort_engine =
     Array_sort (\<lambda>a b. js_minus (feature_responses b) (feature_responses a))"

text \<open>A store that holds the transcript of the example interview, and an outside world for
  one extraction run in which the model returns the text \<open>raw\<close>, which
  \<^verbatim>\<open>JSON.parse\<close> reads as \<open>parsed\<close>, and every request succeeds. (No number is turned
  into text in the examples.)\<close>

definition example_transcript :: Database where
  "example_transcript =
     example_db\<lparr>conversations :=
       [\<lparr>interview_id = ''interview-1'', sender_type = ''ai'', row_content = ''Hello''\<rparr>,
        \<lparr>interview_id = ''interview-1'', sender_type = ''user'', row_content = ''one''\<rparr>]\<rparr>"

definition example_insights_env :: "string \<Rightarrow> string + json \<Rightarrow> InsightsEnv" where
  "example_insights_env raw parsed =
     \<lparr>completion_content = Inr (Some raw),
      JSON_parse = (\<lambda>s. if s = raw then parsed else Inl ''Unexpected token''),
      Number_toString = (\<lambda>n. ''0''),
      convoError = None, invoke_fetch_error = None, saveError = None\<rparr>"

text \<open>Two answers of the model, as text and as \<^verbatim>\<open>JSON.parse\<close> reads them: an object that
  has an executive summary and no \<^verbatim>\<open>painPoints\<close> key, and an object whose only key is
  \<^verbatim>\<open>painPoints\<close>, with six entries.\<close>

definition summary_only_text :: string where
  "summary_only_text = ''{\"executiveSummary\":{\"whatWeLearned\":\"Cooking is a chore\"}}''"

definition summary_only :: json where
  "summary_only = JObj [(''executiveSummary'', JObj [(''whatWeLearned'', JStr ''Cooking is a chore'')])]"

definition six_pain_points_text :: string where
  "six_pain_points_text =
     ''{\"painPoints\":[{\"point\":\"p1\"},{\"point\":\"p2\"},{\"point\":\"p3\"},'' @
     ''{\"point\":\"p4\"},{\"point\":\"p5\"},{\"point\":\"p6\"}]}''"

definition six_pain_points :: json where
  "six_pain_points =
     JObj [(''painPoints'',
            JArr [JObj [(''point'', JStr ''p1'')], JObj [(''point'', JStr ''p2'')],
                  JObj [(''point'', JStr ''p3'')], JObj [(''point'', JStr ''p4'')],
                  JObj [(''point'', JStr ''p5'')], JObj [(''point'', JStr ''p6'')]])]"

section \<open>The rankings in the words of the specification\<close>

text \<open>The truthy texts of all pain points, and of all feature ideas, in the order in which
  the loops meet them.\<close>

definition pain_texts :: "InsightRecord list \<Rightarrow> string list" where
  "pain_texts insights =
     concat (map (\<lambda>i. case pain_points i of None \<Rightarrow> []
                       | Some pps \<Rightarrow> concat (map (\<lambda>pp. truthy_strings (point pp)) pps)) insights)"

definition idea_texts :: "InsightRecord list \<Rightarrow> string list" where
  "idea_texts insights =
     concat (map (\<lambda>i. case product_ideas i of None \<Rightarrow> []
                       | Some ideas \<Rightarrow> concat (map (\<lambda>x. truthy_strings (idea x)) ideas)) insights)"

definition all_pain_points :: "InsightRecord list \<Rightarrow> PainPointDB list" where
  "all_pain_points insights =
     concat (map (\<lambda>i. case pain_points i of None \<Rightarrow> [] | Some pps \<Rightarrow> pps) insights)"

text \<open>The distinct elements of a list in the order of their first occurrence.\<close>

fun first_occurrences :: "'a list \<Rightarrow> 'a list" where
  "first_occurrences [] = []"
| "first_occurrences (x # xs) = x # filter (\<lambda>y. y \<noteq> x) (first_occurrences xs)"

text \<open>The order in which an object lists the texts it was given as keys: array indices in
  ascending numeric order, then the other texts in first-encountered order.\<close>

definition enumeration_order :: "string list \<Rightarrow> string list" where
  "enumeration_order ts =
     sort_key decimal_value (filter is_array_index (first_occurrences ts)) @
     filter (\<lambda>k. \<not> is_array_index k) (first_occurrences ts)"

text \<open>
  The ranking of the specification over a list of texts: one entry for each key, with the
  number of occurrences of the key and that number divided by the number of records times
  100, in the arithmetic of JavaScript numbers; sorted by descending number of occurrences, entries with equal numbers staying
  in the order of the keys (\<open>sort_key\<close> is stable); cut to the first five.
\<close>

definition ranking :: "string list \<Rightarrow> string list \<Rightarrow> nat \<Rightarrow> AggregatedPainPoint list" where
  "ranking keys texts n =
     take 5 (sort_key (\<lambda>e. - int (pain_responses e))
               (map (\<lambda>k. \<lparr>pain_point = k,
                            pain_frequency =
                              js_times (js_divide (of_nat (count_list texts k)) (of_nat n)) 100,
                            pain_responses = count_list texts k\<rparr>) keys))"

text \<open>The counting loop over a list of texts, on an object that holds a number for each
  text, and its closed form.\<close>

definition tally_step :: "nat js_object \<Rightarrow> string \<Rightarrow> nat js_object" where
  "tally_step a k = set_property a k (case map_of a k of None \<Rightarrow> 1 | Some n \<Rightarrow> n + 1)"

definition tally :: "string list \<Rightarrow> nat js_object" where
  "tally ts = map (\<lambda>k. (k, count_list ts k)) (first_occurrences ts)"

definition cnt :: "pain_count js_object \<Rightarrow> nat js_object" where
  "cnt c = map (\<lambda>p. (fst p, count (snd p))) c"

definition num :: "nat js_object \<Rightarrow> count_value js_object" where
  "num a = map (\<lambda>p. (fst p, Num (snd p))) a"

text \<open>A ranked pain point seen as a ranked feature request, and the feature ideas of a
  record presented to the pain-point loop.\<close>

definition as_feature_request :: "AggregatedPainPoint \<Rightarrow> AggregatedFeatureRequest" where
  "as_feature_request p =
     \<lparr>feature = pain_point p, feature_frequency = Some (pain_frequency p),
      feature_responses = Num (pain_responses p)\<rparr>"

definition ideas_as_pain_points :: "InsightRecord \<Rightarrow> InsightRecord" where
  "ideas_as_pain_points i =
     i\<lparr>pain_points := map_option (map (\<lambda>x. \<lparr>point = idea x, severity = None\<rparr>)) (product_ideas i)\<rparr>"

text \<open>A pain point on which the counting loop throws: its text names a property inherited
  from \<^verbatim>\<open>Object.prototype\<close> and it carries a severity.\<close>

definition inherited_with_severity :: "PainPointDB \<Rightarrow> bool" where
  "inherited_with_severity pp =
     (case point pp of None \<Rightarrow> False
      | Some k \<Rightarrow> k \<in> set object_prototype_names \<and> truthy (severity pp))"

text \<open>The ranking of pain points as the specification words it: ties in first-encountered
  order.\<close>

definition claimed_pain_ranking :: "InsightRecord list \<Rightarrow> AggregatedPainPoint list" where
  "claimed_pain_ranking insights =
     ranking (first_occurrences (pain_texts insights)) (pain_texts insights) (length insights)"

text \<open>An insight record that carries the given pain points and feature ideas and nothing
  else.\<close>

definition insight_of :: "PainPointDB list \<Rightarrow> ProductIdeaDB list \<Rightarrow> InsightRecord" where
  "insight_of pps ideas =
     \<lparr>insight_id = ''insight'', project_id = ''project'', user_id = ''founder'',
      summary_text = None, key_learnings = None, pain_points = Some pps, quotes = None,
      objections = None, product_ideas = Some ideas, created_at = ''2025-01-01'',
      projects = None\<rparr>"

section \<open>The conclusion of an interview in the words of the specification\<close>

text \<open>
  Two texts are equal but for the case of their letters when they have the same length
  and at each position the two characters are the same, or are the capital and the small
  form of one letter. The letters here are A to Z, which is all that matters for a phrase
  of small ASCII letters and spaces among the 8-bit characters of a HOL string: the small
  form of a capital has the code of the capital plus 32.
\<close>

definition is_ascii_letter :: "char \<Rightarrow> bool" where
  "is_ascii_letter c =
     ((65 \<le> (of_char c :: nat) \<and> (of_char c :: nat) \<le> 90) \<or>
      (97 \<le> (of_char c :: nat) \<and> (of_char c :: nat) \<le> 122))"

definition same_letter :: "char \<Rightarrow> char \<Rightarrow> bool" where
  "same_letter c d =
     (c = d \<or> (is_ascii_letter c \<and> is_ascii_letter d \<and>
                ((of_char c :: nat) + 32 = of_char d \<or> (of_char d :: nat) + 32 = of_char c)))"

definition equal_ignoring_case :: "string \<Rightarrow> string \<Rightarrow> bool" where
  "equal_ignoring_case s t = list_all2 same_letter s t"

text \<open>A case-insensitive substring match: at some position of the text starts a part that
  equals the phrase but for the case of its letters.\<close>

fun contains_ignoring_case :: "string \<Rightarrow> string \<Rightarrow> bool" where
  "contains_ignoring_case [] p = (p = [])"
| "contains_ignoring_case (c # s) p =
     (equal_ignoring_case (take (length p) (c # s)) p \<or> contains_ignoring_case s p)"

text \<open>The respondent-turn count of a list of messages.\<close>

definition respondent_turns :: "Message list \<Rightarrow> nat" where
  "respondent_turns ms = length (filter (\<lambda>m. msg_type m = User) ms)"

text \<open>
  The termination predicate of the specification for a reply submitted on a page: the reply
  is sent (its trimmed text is not empty) and answered, and with the respondent turn and
  the agent turn appended the respondent-turn count is at least 4, or the text of the
  answer contains the closing phrase, matched without regard to case.
\<close>

definition concluding :: "SendEnv \<Rightarrow> string \<Rightarrow> InterviewPage \<Rightarrow> bool" where
  "concluding env reply page =
     (trim reply \<noteq> [] \<and>
      (case ai_message_content (ai_reply env) of
         Inl err \<Rightarrow> False
       | Inr answer \<Rightarrow>
           4 \<le> respondent_turns
                 (messages page @ [userMessage env (trim reply), aiMessage env answer]) \<or>
           contains_ignoring_case answer ''thank you for your time''))"

section \<open>Properties of the aggregation\<close>

subsection \<open>Double arithmetic\<close>

text \<open>The exponent of a positive number, and the two properties that make \<open>to_double\<close> a
  rounding to the nearest double: its value lies on the grid of the binade, and no more
  than half a step of the grid away from the exact number.\<close>

lemma bit_length_bounds:
  "0 < n \<Longrightarrow> 2 ^ (bit_length n - 1) \<le> n \<and> n < 2 ^ bit_length n"
proof (induction n rule: bit_length.induct)
  case (1 n)
  show ?case
  proof (cases "n div 2 = 0")
    case True
    with 1(2) have "n = 1" by (simp add: div_eq_0_iff) 
    then show ?thesis by (simp add: bit_length.simps)
  next
    case False
    with 1 have IH: "2 ^ (bit_length (n div 2) - 1) \<le> n div 2" "n div 2 < 2 ^ bit_length (n div 2)"
      by simp_all
    from False have pos: "0 < bit_length (n div 2)" by (simp add: bit_length.simps)
    have bl: "bit_length n = Suc (bit_length (n div 2))"
      using 1(2) by (subst bit_length.simps) simp
    from pos have "(2::nat) ^ bit_length (n div 2) = 2 * 2 ^ (bit_length (n div 2) - 1)"
      by (cases "bit_length (n div 2)") simp_all
    with IH(1) have "2 ^ bit_length (n div 2) \<le> n" by simp
    moreover from IH(2) have "n < 2 * 2 ^ bit_length (n div 2)" by simp
    ultimately show ?thesis by (simp add: bl)
  qed
qed

lemma bit_length_bounds_real:
  assumes "0 < k"
  shows "(2::real) ^ (bit_length k - 1) \<le> real k \<and> real k + 1 \<le> 2 ^ bit_length k"
proof -
  from bit_length_bounds [OF assms]
  have b: "2 ^ (bit_length k - 1) \<le> k" "k + 1 \<le> 2 ^ bit_length k"
    by simp_all
  from b(1) have "real (2 ^ (bit_length k - 1)) \<le> real k" by (simp only: of_nat_le_iff)
  moreover from b(2) have "real (k + 1) \<le> real (2 ^ bit_length k)" by (simp only: of_nat_le_iff)
  ultimately show ?thesis by simp
qed

lemma binade_bounds:
  assumes "0 < x"
  shows "2 powi binade x \<le> x \<and> x < 2 powi (binade x + 1)"
proof (cases "1 \<le> x")
  case True
  define k where "k = nat \<lfloor>x\<rfloor>"
  from True have k: "0 < k" "real k \<le> x" "x < real k + 1"
    unfolding k_def by (simp_all add: of_nat_nat)
  note b = bit_length_bounds_real [OF k(1)]
  from k(1) have pos: "0 < bit_length k" by (simp add: bit_length.simps)
  have "binade x = int (bit_length k - 1)" "binade x + 1 = int (bit_length k)"
    using True pos by (simp_all add: binade_def k_def)
  then have e: "(2::real) powi binade x = 2 ^ (bit_length k - 1)"
      "(2::real) powi (binade x + 1) = 2 ^ bit_length k"
    by (simp_all only: power_int_of_nat)
  from b k show ?thesis unfolding e by linarith
next
  case False
  define k where "k = nat (\<lceil>1 / x\<rceil> - 1)"
  from False assms have "1 < 1 / x" by simp
  then have c: "2 \<le> \<lceil>1 / x\<rceil>" by linarith
  then have k: "0 < k" "real k < 1 / x" "1 / x \<le> real k + 1"
    unfolding k_def by (simp_all add: of_nat_nat) linarith+
  note b = bit_length_bounds_real [OF k(1)]
  from k(1) have pos: "0 < bit_length k" by (simp add: bit_length.simps)
  have "binade x = - int (bit_length k)" "binade x + 1 = - int (bit_length k - 1)"
    using False pos by (simp_all add: binade_def k_def)
  then have e: "(2::real) powi binade x = inverse (2 ^ bit_length k)"
      "(2::real) powi (binade x + 1) = inverse (2 ^ (bit_length k - 1))"
    by (simp_all only: power_int_minus power_int_of_nat)
  from b k have lo: "(2::real) ^ (bit_length k - 1) < 1 / x"
    and hi: "1 / x \<le> (2::real) ^ bit_length k" by linarith+
  from hi assms have "1 \<le> 2 ^ bit_length k * x"
    by (simp add: pos_divide_le_eq)
  then have "inverse (2 ^ bit_length k) \<le> x"
    by (simp add: inverse_eq_divide pos_divide_le_eq mult.commute)
  moreover from lo assms have "2 ^ (bit_length k - 1) * x < 1"
    by (simp add: pos_less_divide_eq)
  then have "x < inverse (2 ^ (bit_length k - 1))"
    by (simp add: inverse_eq_divide pos_less_divide_eq mult.commute)
  ultimately show ?thesis unfolding e by simp
qed

lemma round_half_even_nearest: "\<bar>of_int (round_half_even m) - m\<bar> \<le> 1 / 2"
  unfolding round_half_even_def Let_def by (auto split: if_splits)

lemma to_double_grid:
  "\<exists>k. to_double x = of_int k * 2 powi (max (binade \<bar>x\<bar>) (- 1022) - 52)"
proof (cases "x = 0")
  case True
  then have "to_double x = of_int 0 * 2 powi (max (binade \<bar>x\<bar>) (- 1022) - 52)"
    by (simp add: to_double_def)
  then show ?thesis by blast
next
  case False
  define e where "e = max (binade \<bar>x\<bar>) (- 1022)"
  define k where "k = (if 0 < x then 1 else - 1) * round_half_even (\<bar>x\<bar> / 2 powi (e - 52))"
  from False have "to_double x = of_int k * 2 powi (e - 52)"
    by (simp add: to_double_def Let_def e_def k_def sgn_real_def)
  then show ?thesis unfolding e_def by blast
qed

lemma to_double_nearest:
  "\<bar>to_double x - x\<bar> \<le> 2 powi (max (binade \<bar>x\<bar>) (- 1022) - 52) / 2"
proof (cases "x = 0")
  case True
  then show ?thesis by (simp add: to_double_def)
next
  case False
  define u :: real where "u = 2 powi (max (binade \<bar>x\<bar>) (- 1022) - 52)"
  have u: "0 < u" by (simp add: u_def)
  define r where "r = round_half_even (\<bar>x\<bar> / u)"
  have "\<bar>of_int r - \<bar>x\<bar> / u\<bar> \<le> 1 / 2"
    unfolding r_def by (rule round_half_even_nearest)
  then have "\<bar>of_int r - \<bar>x\<bar> / u\<bar> * u \<le> 1 / 2 * u"
    using u by (simp only: mult_le_cancel_right_pos)
  moreover have "(of_int r - \<bar>x\<bar> / u) * u = of_int r * u - \<bar>x\<bar>"
    using u by (simp add: field_simps)
  then have "\<bar>of_int r - \<bar>x\<bar> / u\<bar> * u = \<bar>of_int r * u - \<bar>x\<bar>\<bar>"
    using u by (metis abs_mult abs_of_pos)
  ultimately have near: "\<bar>of_int r * u - \<bar>x\<bar>\<bar> \<le> u / 2" by simp
  have "to_double x = sgn x * (of_int r * u)"
    using False by (simp add: to_double_def Let_def u_def r_def)
  then have "\<bar>to_double x - x\<bar> = \<bar>of_int r * u - \<bar>x\<bar>\<bar>"
    using False by (cases "0 < x") (simp_all add: sgn_real_def)
  with near show ?thesis by (simp add: u_def)
qed

lemmas double_eval = js_times_def js_divide_def to_double_def binade_def bit_length.simps
  round_half_even_def Let_def power_int_minus

text \<open>Frequencies of the examples below: 3 of 5 and 2 of 5 give 60 and 40, and 7 of 25 gives
  the double next above 28, which prints as 28.000000000000004.\<close>

lemma three_of_five: "js_times (js_divide 3 5) 100 = 60"
  by (simp add: double_eval)

lemma two_of_five: "js_times (js_divide 2 5) 100 = 40"
  by (simp add: double_eval)

lemma seven_of_twenty_five:
  "js_times (js_divide 7 25) 100 = 7881299347898369 / 281474976710656"
  by (simp add: double_eval)


subsection \<open>Objects as dictionaries\<close>

lemma map_of_set_property:
  "map_of (set_property obj k v) k' = (if k' = k then Some v else map_of obj k')"
  by (induction obj) auto

lemma set_property_twice: "set_property (set_property obj k a) k b = set_property obj k b"
  by (induction obj) auto

lemma set_property_map:
  "set_property (map (\<lambda>p. (fst p, g (snd p))) obj) k (g v) =
     map (\<lambda>p. (fst p, g (snd p))) (set_property obj k v)"
  by (induction obj) auto

lemma map_of_map_values:
  "map_of (map (\<lambda>p. (fst p, g (snd p))) obj) k = map_option g (map_of obj k)"
  by (induction obj) auto

lemma set_property_keyed:
  "distinct ks \<Longrightarrow>
   set_property (map (\<lambda>k. (k, f k)) ks) x v =
     (if x \<in> set ks then map (\<lambda>k. (k, if k = x then v else f k)) ks
      else map (\<lambda>k. (k, f k)) ks @ [(x, v)])"
  by (induction ks) auto

lemma map_of_keyed: "map_of (map (\<lambda>k. (k, f k)) ks) x = (if x \<in> set ks then Some (f x) else None)"
  by (induction ks) auto

lemma get_property_cases:
  "k \<notin> set object_prototype_names \<Longrightarrow>
   get_property obj k = (case map_of obj k of None \<Rightarrow> Undefined | Some v \<Rightarrow> Own v)"
  by (simp add: get_property_def split: option.splits)

lemma insort_key_map:
  "insort_key f (h x) (map h xs) = map h (insort_key (\<lambda>y. f (h y)) x xs)"
  by (induction xs) auto

lemma sort_key_map: "sort_key f (map h xs) = map h (sort_key (\<lambda>y. f (h y)) xs)"
  by (induction xs) (simp_all add: insort_key_map)

lemma Object_entries_map_values:
  "Object_entries (map (\<lambda>p. (fst p, g (snd p))) obj) =
     map (\<lambda>p. (fst p, g (snd p))) (Object_entries obj)"
  by (simp add: Object_entries_def filter_map sort_key_map comp_def)

lemma Object_entries_keyed:
  "Object_entries (map (\<lambda>k. (k, f k)) ks) =
     map (\<lambda>k. (k, f k))
       (sort_key decimal_value (filter is_array_index ks) @ filter (\<lambda>k. \<not> is_array_index k) ks)"
  by (simp add: Object_entries_def filter_map sort_key_map comp_def)

subsection \<open>Sorting with a numeric comparator\<close>

lemma insert_stable_insort:
  "insert_stable (\<lambda>a b. Some (int (r b) - int (r a))) x ys = insort_key (\<lambda>e. - int (r e)) x ys"
  by (induction ys) (auto simp: SortCompare_def)

lemma Array_sort_descending:
  "Array_sort (\<lambda>a b. Some (int (r b) - int (r a))) xs = sort_key (\<lambda>e. - int (r e)) xs"
  by (induction xs) (simp_all add: Array_sort_def insert_stable_insort)

lemma insert_stable_map:
  assumes "\<And>a b. cf (h a) (h b) = cp a b"
  shows "insert_stable cf (h x) (map h ys) = map h (insert_stable cp x ys)"
  by (induction ys) (simp_all add: SortCompare_def assms)

lemma Array_sort_map:
  assumes "\<And>a b. cf (h a) (h b) = cp a b"
  shows "Array_sort cf (map h xs) = map h (Array_sort cp xs)"
  unfolding Array_sort_def
  by (induction xs) (simp_all add: insert_stable_map [of cf h cp, OF assms])

text \<open>The sort of the rankings puts larger counts first, keeps every element, and leaves
  elements with equal counts in their earlier order.\<close>

lemma Array_sort_stable_descending:
  "sorted_wrt (\<lambda>a b. r b \<le> r a) (Array_sort (\<lambda>a b. Some (int (r b) - int (r a))) xs) \<and>
   set (Array_sort (\<lambda>a b. Some (int (r b) - int (r a))) xs) = set xs \<and>
   length (Array_sort (\<lambda>a b. Some (int (r b) - int (r a))) xs) = length xs \<and>
   filter (\<lambda>e. r e = n) (Array_sort (\<lambda>a b. Some (int (r b) - int (r a))) xs) =
     filter (\<lambda>e. r e = n) xs"
proof -
  have "sorted (map (\<lambda>e. - int (r e)) (sort_key (\<lambda>e. - int (r e)) xs))"
    by (rule sorted_sort_key)
  then have "sorted_wrt (\<lambda>a b. r b \<le> r a) (sort_key (\<lambda>e. - int (r e)) xs)"
    by (simp add: sorted_map)
  moreover have "filter (\<lambda>e. - int (r e) = - int n) (sort_key (\<lambda>e. - int (r e)) xs) =
      filter (\<lambda>e. - int (r e) = - int n) xs"
    by (rule sort_key_stable)
  ultimately show ?thesis
    by (simp add: Array_sort_descending)
qed

subsection \<open>The counting loop in closed form\<close>

lemma set_first_occurrences: "set (first_occurrences xs) = set xs"
  by (induction xs) auto

lemma distinct_first_occurrences: "distinct (first_occurrences xs)"
  by (induction xs) (auto simp: set_first_occurrences)

lemma first_occurrences_snoc:
  "first_occurrences (xs @ [x]) =
     (if x \<in> set xs then first_occurrences xs else first_occurrences xs @ [x])"
  by (induction xs) auto

lemma tally_snoc: "tally (ts @ [x]) = tally_step (tally ts) x"
  by (auto simp: tally_def tally_step_def first_occurrences_snoc set_property_keyed map_of_keyed
      set_first_occurrences distinct_first_occurrences)

lemma fold_tally: "fold (\<lambda>k a. tally_step a k) ts [] = tally ts"
proof (induction ts rule: rev_induct)
  case Nil
  show ?case by (simp add: tally_def)
next
  case (snoc x xs)
  then show ?case by (simp add: tally_snoc)
qed

lemma Object_entries_tally:
  "Object_entries (tally ts) = map (\<lambda>k. (k, count_list ts k)) (enumeration_order ts)"
  by (simp add: tally_def enumeration_order_def Object_entries_keyed)

lemma enumeration_order_no_index:
  assumes "\<forall>k \<in> set ts. \<not> is_array_index k"
  shows "enumeration_order ts = first_occurrences ts"
proof -
  from assms have "\<forall>k \<in> set (first_occurrences ts). \<not> is_array_index k"
    by (simp add: set_first_occurrences)
  then have "filter is_array_index (first_occurrences ts) = []"
    and "filter (\<lambda>k. \<not> is_array_index k) (first_occurrences ts) = first_occurrences ts"
    by (simp_all add: filter_empty_conv filter_id_conv)
  then show ?thesis by (simp add: enumeration_order_def)
qed

subsection \<open>The pain-point loop\<close>

lemma cnt_set_property: "cnt (set_property c k v) = set_property (cnt c) k (count v)"
  unfolding cnt_def by (rule set_property_map [symmetric])

lemma map_of_cnt: "map_of (cnt c) k = map_option count (map_of c k)"
  unfolding cnt_def by (rule map_of_map_values)

lemma pain_point_step_counts:
  assumes "point pp = Some k" "k \<noteq> []" "k \<notin> set object_prototype_names"
  shows "\<exists>c'. pain_point_step c pp = Inr c' \<and> cnt c' = tally_step (cnt c) k"
proof (cases "map_of c k")
  case None
  then show ?thesis using assms
    by (simp add: pain_point_step_def Let_def get_property_cases map_of_set_property
        cnt_set_property set_property_twice tally_step_def map_of_cnt)
next
  case (Some e)
  then show ?thesis using assms
    by (simp add: pain_point_step_def Let_def get_property_cases map_of_set_property
        cnt_set_property tally_step_def map_of_cnt)
qed

lemma pain_point_step_skip:
  "truthy_strings (point pp) = [] \<Longrightarrow> pain_point_step c pp = Inr c"
  by (auto simp: pain_point_step_def truthy_strings_def split: option.splits if_splits)

lemma pain_point_step_texts:
  assumes "\<forall>k \<in> set (truthy_strings (point pp)). k \<notin> set object_prototype_names"
  shows "\<exists>c'. pain_point_step c pp = Inr c' \<and>
              cnt c' = fold (\<lambda>k a. tally_step a k) (truthy_strings (point pp)) (cnt c)"
proof (cases "truthy_strings (point pp)")
  case Nil
  then show ?thesis by (simp add: pain_point_step_skip)
next
  case (Cons k ks)
  then have "point pp = Some k" "k \<noteq> []" "ks = []"
    by (auto simp: truthy_strings_def split: option.splits if_splits)
  with assms Cons pain_point_step_counts [of pp k c] show ?thesis by auto
qed

lemma forEach_pain_points:
  assumes "\<forall>k \<in> set (concat (map (\<lambda>pp. truthy_strings (point pp)) pps)).
             k \<notin> set object_prototype_names"
  shows "\<exists>c'. forEach pain_point_step c pps = Inr c' \<and>
              cnt c' = fold (\<lambda>k a. tally_step a k)
                         (concat (map (\<lambda>pp. truthy_strings (point pp)) pps)) (cnt c)"
  using assms
proof (induction pps arbitrary: c)
  case Nil
  show ?case by simp
next
  case (Cons pp pps)
  from Cons.prems obtain c1 where c1: "pain_point_step c pp = Inr c1"
      "cnt c1 = fold (\<lambda>k a. tally_step a k) (truthy_strings (point pp)) (cnt c)"
    using pain_point_step_texts [of pp c] by auto
  from Cons.prems Cons.IH [of c1] obtain c' where "forEach pain_point_step c1 pps = Inr c'"
      "cnt c' = fold (\<lambda>k a. tally_step a k)
                  (concat (map (\<lambda>pp. truthy_strings (point pp)) pps)) (cnt c1)"
    by auto
  with c1 show ?case by simp
qed

lemma forEach_insights_pain:
  assumes "\<forall>k \<in> set (pain_texts insights). k \<notin> set object_prototype_names"
  shows "\<exists>c'. forEach (\<lambda>c i. case pain_points i of None \<Rightarrow> Inr c
                               | Some pps \<Rightarrow> forEach pain_point_step c pps) c insights = Inr c' \<and>
              cnt c' = fold (\<lambda>k a. tally_step a k) (pain_texts insights) (cnt c)"
  using assms
proof (induction insights arbitrary: c)
  case Nil
  show ?case by (simp add: pain_texts_def)
next
  case (Cons i insights)
  let ?body = "\<lambda>c i. case pain_points i of None \<Rightarrow> Inr c | Some pps \<Rightarrow> forEach pain_point_step c pps"
  let ?ts = "case pain_points i of None \<Rightarrow> []
             | Some pps \<Rightarrow> concat (map (\<lambda>pp. truthy_strings (point pp)) pps)"
  have split: "pain_texts (i # insights) = ?ts @ pain_texts insights"
    by (simp add: pain_texts_def)
  have "\<exists>c1. ?body c i = Inr c1 \<and> cnt c1 = fold (\<lambda>k a. tally_step a k) ?ts (cnt c)"
  proof (cases "pain_points i")
    case None
    then show ?thesis by simp
  next
    case (Some pps)
    with Cons.prems split forEach_pain_points [of pps c] show ?thesis by auto
  qed
  then obtain c1 where c1: "?body c i = Inr c1"
      "cnt c1 = fold (\<lambda>k a. tally_step a k) ?ts (cnt c)"
    by blast
  from Cons.prems split Cons.IH [of c1] obtain c' where
    "forEach ?body c1 insights = Inr c'"
    "cnt c' = fold (\<lambda>k a. tally_step a k) (pain_texts insights) (cnt c1)"
    by auto
  with c1 split show ?case by simp
qed

lemma count_pain_points_tally:
  assumes "\<forall>k \<in> set (pain_texts insights). k \<notin> set object_prototype_names"
  shows "\<exists>c. count_pain_points insights = Inr c \<and> cnt c = tally (pain_texts insights)"
  using forEach_insights_pain [OF assms, of "[]"]
  by (simp add: count_pain_points_def cnt_def fold_tally)

lemma aggregate_pains_ranking:
  assumes "cnt c = tally ts"
  shows "aggregate_pains c n = ranking (enumeration_order ts) ts n"
proof -
  have "map (\<lambda>(p, d). \<lparr>pain_point = p,
                         pain_frequency = js_times (js_divide (of_nat (count d)) (of_nat n)) 100,
                         pain_responses = count d\<rparr>) (Object_entries c)
        = map (\<lambda>(p, m). \<lparr>pain_point = p,
                         pain_frequency = js_times (js_divide (of_nat m) (of_nat n)) 100,
                         pain_responses = m\<rparr>) (Object_entries (cnt c))"
    by (simp add: cnt_def Object_entries_map_values case_prod_beta)
  also have "\<dots> = map (\<lambda>k. \<lparr>pain_point = k,
                            pain_frequency =
                              js_times (js_divide (of_nat (count_list ts k)) (of_nat n)) 100,
                            pain_responses = count_list ts k\<rparr>) (enumeration_order ts)"
    by (simp add: assms Object_entries_tally)
  finally show ?thesis
    by (simp add: aggregate_pains_def ranking_def Array_sort_descending)
qed

text \<open>The loop throws only at a pain point whose text names an inherited property and
  which carries a severity.\<close>

lemma pain_point_step_completes:
  assumes "\<not> inherited_with_severity pp"
  shows "\<exists>c'. pain_point_step c pp = Inr c'"
  using assms
  by (cases "map_of c (the (point pp))")
     (auto simp: pain_point_step_def inherited_with_severity_def Let_def get_property_def
        map_of_set_property split: option.splits)

lemma forEach_pain_points_completes:
  assumes "\<forall>pp \<in> set pps. \<not> inherited_with_severity pp"
  shows "\<exists>c'. forEach pain_point_step c pps = Inr c'"
  using assms
proof (induction pps arbitrary: c)
  case Nil
  show ?case by simp
next
  case (Cons pp pps)
  then obtain c1 where "pain_point_step c pp = Inr c1"
    using pain_point_step_completes [of pp c] by auto
  with Cons show ?case by simp
qed

lemma count_pain_points_completes:
  assumes "\<forall>pp \<in> set (all_pain_points insights). \<not> inherited_with_severity pp"
  shows "\<exists>c. count_pain_points insights = Inr c"
proof -
  have "\<exists>c'. forEach (\<lambda>c i. case pain_points i of None \<Rightarrow> Inr c
                               | Some pps \<Rightarrow> forEach pain_point_step c pps) c insights = Inr c'" for c
    using assms
  proof (induction insights arbitrary: c)
    case Nil
    show ?case by simp
  next
    case (Cons i insights)
    have "\<exists>c1. (case pain_points i of None \<Rightarrow> Inr c
                 | Some pps \<Rightarrow> forEach pain_point_step c pps) = Inr c1"
    proof (cases "pain_points i")
      case None
      then show ?thesis by simp
    next
      case (Some pps)
      with Cons.prems forEach_pain_points_completes [of pps c] show ?thesis
        by (auto simp: all_pain_points_def)
    qed
    then obtain c1 where
      "(case pain_points i of None \<Rightarrow> Inr c | Some pps \<Rightarrow> forEach pain_point_step c pps) = Inr c1"
      by blast
    moreover from Cons.prems
    have "\<forall>pp \<in> set (all_pain_points insights). \<not> inherited_with_severity pp"
      by (auto simp: all_pain_points_def)
    ultimately show ?case using Cons.IH [of c1] by simp
  qed
  then show ?thesis by (simp add: count_pain_points_def)
qed

subsection \<open>The feature loop\<close>

lemma num_set_property: "num (set_property a k v) = set_property (num a) k (Num v)"
  unfolding num_def by (rule set_property_map [symmetric])

lemma map_of_num: "map_of (num a) k = map_option Num (map_of a k)"
  unfolding num_def by (rule map_of_map_values)

lemma feature_step_counts:
  assumes "\<forall>k \<in> set (truthy_strings (idea x)). k \<notin> set object_prototype_names"
  shows "feature_step (num a) x = num (fold (\<lambda>k a. tally_step a k) (truthy_strings (idea x)) a)"
proof (cases "truthy_strings (idea x)")
  case Nil
  then show ?thesis
    by (auto simp: feature_step_def truthy_strings_def split: option.splits if_splits)
next
  case (Cons k ks)
  then have k: "idea x = Some k" "k \<noteq> []" "ks = []"
    by (auto simp: truthy_strings_def split: option.splits if_splits)
  with assms Cons have "k \<notin> set object_prototype_names" by simp
  with k Cons show ?thesis
    by (cases "map_of a k")
       (simp_all add: feature_step_def get_property_cases map_of_num num_set_property tally_step_def)
qed

lemma fold_feature_step:
  assumes "\<forall>k \<in> set (concat (map (\<lambda>x. truthy_strings (idea x)) ideas)).
             k \<notin> set object_prototype_names"
  shows "fold (\<lambda>x c'. feature_step c' x) ideas (num a) =
           num (fold (\<lambda>k a. tally_step a k) (concat (map (\<lambda>x. truthy_strings (idea x)) ideas)) a)"
  using assms by (induction ideas arbitrary: a) (simp_all add: feature_step_counts)

lemma fold_insights_features:
  assumes "\<forall>k \<in> set (idea_texts insights). k \<notin> set object_prototype_names"
  shows "fold (\<lambda>i c. case product_ideas i of None \<Rightarrow> c
                      | Some ideas \<Rightarrow> fold (\<lambda>x c'. feature_step c' x) ideas c) insights (num a) =
           num (fold (\<lambda>k a. tally_step a k) (idea_texts insights) a)"
  using assms
proof (induction insights arbitrary: a)
  case Nil
  show ?case by (simp add: idea_texts_def)
next
  case (Cons i insights)
  have split: "idea_texts (i # insights) =
      (case product_ideas i of None \<Rightarrow> []
       | Some ideas \<Rightarrow> concat (map (\<lambda>x. truthy_strings (idea x)) ideas))
      @ idea_texts insights"
    by (simp add: idea_texts_def)
  show ?case
  proof (cases "product_ideas i")
    case None
    with Cons split show ?thesis by simp
  next
    case (Some ideas)
    with Cons.prems split
    have "fold (\<lambda>x c'. feature_step c' x) ideas (num a) =
            num (fold (\<lambda>k a. tally_step a k) (concat (map (\<lambda>x. truthy_strings (idea x)) ideas)) a)"
      by (intro fold_feature_step) simp
    with Some Cons split show ?thesis by simp
  qed
qed

lemma count_features_tally:
  assumes "\<forall>k \<in> set (idea_texts insights). k \<notin> set object_prototype_names"
  shows "count_features insights = num (tally (idea_texts insights))"
  using fold_insights_features [OF assms, of "[]"]
  by (simp add: count_features_def num_def fold_tally)

lemma consistent_counts_numbers:
  "consistent_counts (map feature_responses (map as_feature_request xs))"
  by (simp add: consistent_counts_def list_all_iff to_number_def as_feature_request_def)

lemma aggregate_features_ranking:
  "aggregate_features engine_sort (num (tally ts)) n =
     map as_feature_request (ranking (enumeration_order ts) ts n)"
proof -
  have entries: "Object_entries (num (tally ts)) =
      map (\<lambda>k. (k, Num (count_list ts k))) (enumeration_order ts)"
    by (simp add: num_def Object_entries_map_values Object_entries_tally comp_def)
  have sorted: "Array_sort (\<lambda>a b. js_minus (feature_responses b) (feature_responses a))
        (map as_feature_request xs) =
      map as_feature_request
        (Array_sort (\<lambda>a b. Some (int (pain_responses b) - int (pain_responses a))) xs)" for xs
    by (rule Array_sort_map) (simp add: js_minus_def to_number_def as_feature_request_def)
  have "map (\<lambda>(f, c). \<lparr>feature = f,
                         feature_frequency =
                           (case to_number c of None \<Rightarrow> None
                            | Some x \<Rightarrow> Some (js_times (js_divide (of_int x) (of_nat n)) 100)),
                         feature_responses = c\<rparr>)
          (Object_entries (num (tally ts))) =
        map as_feature_request
          (map (\<lambda>k. \<lparr>pain_point = k,
                       pain_frequency =
                         js_times (js_divide (of_nat (count_list ts k)) (of_nat n)) 100,
                       pain_responses = count_list ts k\<rparr>) (enumeration_order ts))"
    by (simp add: entries to_number_def as_feature_request_def comp_def)
  then have "aggregate_features engine_sort (num (tally ts)) n =
      take 5 (Array_sort (\<lambda>a b. js_minus (feature_responses b) (feature_responses a))
        (map as_feature_request
          (map (\<lambda>k. \<lparr>pain_point = k,
                       pain_frequency =
                         js_times (js_divide (of_nat (count_list ts k)) (of_nat n)) 100,
                       pain_responses = count_list ts k\<rparr>) (enumeration_order ts))))"
    by (simp only: aggregate_features_def sort_features_def consistent_counts_numbers if_True)
  also have "\<dots> = map as_feature_request (ranking (enumeration_order ts) ts n)"
    by (simp only: sorted Array_sort_descending ranking_def take_map)
  finally show ?thesis .
qed

lemma pain_texts_ideas_as_pain_points:
  "pain_texts (map ideas_as_pain_points insights) = idea_texts insights"
  by (induction insights)
     (auto simp: pain_texts_def idea_texts_def ideas_as_pain_points_def comp_def
        split: option.splits)

text \<open>
  On texts that name no inherited property, the feature ranking is the pain-point ranking
  run on the feature ideas.
\<close>

lemma feature_ranking_is_pain_ranking:
  assumes "\<forall>k \<in> set (idea_texts insights). k \<notin> set object_prototype_names"
  shows "\<exists>c. count_pain_points (map ideas_as_pain_points insights) = Inr c \<and>
             aggregate_features engine_sort (count_features insights) n =
               map as_feature_request (aggregate_pains c n)"
proof -
  from assms obtain c where c: "count_pain_points (map ideas_as_pain_points insights) = Inr c"
      "cnt c = tally (idea_texts insights)"
    using count_pain_points_tally [of "map ideas_as_pain_points insights"]
    by (auto simp: pain_texts_ideas_as_pain_points)
  then show ?thesis
    by (simp add: count_features_tally [OF assms] aggregate_features_ranking
        aggregate_pains_ranking)
qed

subsection \<open>The claims about the aggregation\<close>


text \<open>
  Claim C6. Aggregation of an empty list of insight records does not throw and sets the
  overview counters to zero interviews, with the top pain point and the key learning
  both \<^verbatim>\<open>"N/A"\<close>; this holds from every state of the page and in every engine.
\<close>

theorem empty_aggregation_counters:
  "processDataForDisplay engine_sort st [] =
     Inr (st\<lparr>overviewStats :=
               \<lparr>totalInterviews = 0, topPainPointText = ''N/A'', keyInsightText = ''N/A''\<rparr>\<rparr>)"
  by (simp add: processDataForDisplay_def)

theorem empty_aggregation_counters_witness:
  "\<exists>st'. processDataForDisplay insertion_sort_engine initial_analytics [] = Inr st' \<and>
         totalInterviews (overviewStats st') = 0 \<and>
         topPainPointText (overviewStats st') = ''N/A'' \<and>
         keyInsightText (overviewStats st') = ''N/A''"
  using empty_aggregation_counters [of insertion_sort_engine initial_analytics] by simp

text \<open>
  Claim C5, as amended. For every non-empty list of insight records in which no pain-point
  text names a property inherited from \<^verbatim>\<open>Object.prototype\<close>, the aggregation completes and
  the pain-point ranking has one entry for each distinct non-empty text, with the number
  of its occurrences and that number divided by the number of records times 100, both
  operations in double arithmetic (\<open>ranking\<close>), sorted by descending number of
  occurrences and cut to five. Ties stand in the order in which
  the object lists its keys: texts that are array indices first, in ascending numeric
  order, then the other texts in first-encountered order. When no text is an array index
  this is the ranking of the specification, with ties in first-encountered order.
\<close>

theorem pain_point_ranking:
  assumes "insights \<noteq> []"
    and "\<forall>k \<in> set (pain_texts insights). k \<notin> set object_prototype_names"
  shows "\<exists>st'. processDataForDisplay engine_sort st insights = Inr st' \<and>
           topPainPoints st' =
             ranking (enumeration_order (pain_texts insights)) (pain_texts insights)
               (length insights) \<and>
           ((\<forall>k \<in> set (pain_texts insights). \<not> is_array_index k) \<longrightarrow>
              topPainPoints st' = claimed_pain_ranking insights)"
proof -
  from assms(2) obtain c where c: "count_pain_points insights = Inr c"
      "cnt c = tally (pain_texts insights)"
    using count_pain_points_tally by blast
  have "aggregate_pains c (length insights) =
      ranking (enumeration_order (pain_texts insights)) (pain_texts insights) (length insights)"
    using c(2) by (rule aggregate_pains_ranking)
  with assms(1) c(1) show ?thesis
    by (simp add: processDataForDisplay_def Let_def claimed_pain_ranking_def
        enumeration_order_no_index)
qed

text \<open>The example of the specification: five records that contribute the points A, A, B, A,
  B give A with 3 occurrences (60) and then B with 2 (40).\<close>

theorem pain_point_ranking_witness:
  "\<exists>st'. processDataForDisplay insertion_sort_engine initial_analytics
           (map (\<lambda>t. insight_of [\<lparr>point = Some t, severity = Some ''high''\<rparr>] [])
              [''A'', ''A'', ''B'', ''A'', ''B'']) = Inr st' \<and>
         topPainPoints st' =
           [\<lparr>pain_point = ''A'', pain_frequency = 60, pain_responses = 3\<rparr>,
            \<lparr>pain_point = ''B'', pain_frequency = 40, pain_responses = 2\<rparr>]"
proof -
  let ?insights = "map (\<lambda>t. insight_of [\<lparr>point = Some t, severity = Some ''high''\<rparr>] [])
                     [''A'', ''A'', ''B'', ''A'', ''B'']"
  have texts: "pain_texts ?insights = [''A'', ''A'', ''B'', ''A'', ''B'']"
    by (simp add: pain_texts_def insight_of_def truthy_strings_def)
  have "ranking (enumeration_order (pain_texts ?insights)) (pain_texts ?insights)
          (length ?insights) =
        [\<lparr>pain_point = ''A'', pain_frequency = 60, pain_responses = 3\<rparr>,
         \<lparr>pain_point = ''B'', pain_frequency = 40, pain_responses = 2\<rparr>]"
    unfolding texts
    by (simp add: ranking_def enumeration_order_def is_array_index_def is_digit_def
        three_of_five two_of_five)
  moreover have "\<forall>k \<in> set (pain_texts ?insights). k \<notin> set object_prototype_names"
    unfolding texts by (simp add: object_prototype_names_def)
  ultimately show ?thesis
    using pain_point_ranking
      [where insights = ?insights and engine_sort = insertion_sort_engine
         and st = initial_analytics]
    by auto
qed

text \<open>
  The claim as the specification words it fails on texts that are array indices: one
  record with the pain points "2" and then "1" is ranked "1" before "2", while
  first-encountered order puts "2" first.
\<close>

theorem pain_point_ranking_counterexample:
  "map_sum fst (\<lambda>st'. map pain_point (topPainPoints st'))
     (processDataForDisplay insertion_sort_engine initial_analytics
        [insight_of [\<lparr>point = Some ''2'', severity = None\<rparr>,
                     \<lparr>point = Some ''1'', severity = None\<rparr>] []]) = Inr [''1'', ''2''] \<and>
   map pain_point
     (claimed_pain_ranking
        [insight_of [\<lparr>point = Some ''2'', severity = None\<rparr>,
                     \<lparr>point = Some ''1'', severity = None\<rparr>] []]) = [''2'', ''1'']"
  by (simp add: processDataForDisplay_def count_pain_points_def pain_point_step_def
      get_property_def object_prototype_names_def truthy_def truthy_strings_def
      aggregate_pains_def Object_entries_def is_array_index_def is_digit_def decimal_value_def
      Array_sort_def SortCompare_def insight_of_def Let_def claimed_pain_ranking_def
      ranking_def pain_texts_def aggregate_features_def sort_features_def consistent_counts_def
      count_features_def Object_entries_def)

text \<open>
  Claim C8 at an input where it fails. A single record whose only feature idea has the text
  "constructor": the pain-point loop, run on that idea, reads the inherited
  \<^verbatim>\<open>Object.prototype.constructor\<close>, creates no entry and ranks nothing; the feature loop
  stores the text of that function followed by "1" under the key and ranks one feature
  whose count is that string and whose frequency is \<^verbatim>\<open>NaN\<close>, in every engine.
\<close>

theorem feature_ranking_inherited_name:
  "count_pain_points
     (map ideas_as_pain_points [insight_of [] [\<lparr>idea = Some ''constructor'', source = None\<rparr>]]) =
     Inr [] \<and>
   aggregate_pains [] 1 = [] \<and>
   aggregate_features engine_sort
     (count_features [insight_of [] [\<lparr>idea = Some ''constructor'', source = None\<rparr>]]) 1 =
     [\<lparr>feature = ''constructor'', feature_frequency = None,
       feature_responses = Str ''function Object() { [native code] }1''\<rparr>]"
  by (simp add: count_pain_points_def pain_point_step_def get_property_def
      object_prototype_names_def truthy_def truthy_strings_def aggregate_pains_def
      Object_entries_def is_array_index_def is_digit_def Array_sort_def insight_of_def Let_def
      ideas_as_pain_points_def count_features_def feature_step_def aggregate_features_def
      sort_features_def consistent_counts_def to_number_def native_function_text_def)

text \<open>
  The key learning of the overview. For every non-empty list of insight records in which
  no record has a non-empty \<^verbatim>\<open>whatWeLearned\<close> string (in particular when none has the
  string at all) and on which the pain-point loop does not throw, that is, no pain point
  whose text names an inherited property carries a severity, the aggregation completes
  and the key learning is the string "undefined": \<^verbatim>\<open>undefined + ''\<close> is computed before
  the fallback \<^verbatim>\<open>|| "N/A"\<close> is tested.
\<close>

lemma key_learning_undefined:
  assumes "insights \<noteq> []"
    and "\<forall>i \<in> set insights. \<forall>kl. key_learnings i = Some kl \<longrightarrow> \<not> truthy (whatWeLearned kl)"
    and "\<forall>pp \<in> set (all_pain_points insights). \<not> inherited_with_severity pp"
  shows "\<exists>st'. processDataForDisplay engine_sort st insights = Inr st' \<and>
           keyInsightText (overviewStats st') = ''undefined''"
proof -
  from assms(3) obtain c where c: "count_pain_points insights = Inr c"
    using count_pain_points_completes by blast
  have "(case key_learnings i of None \<Rightarrow> [] | Some kl \<Rightarrow> truthy_strings (whatWeLearned kl)) = []"
    if "i \<in> set insights" for i
    using assms(2) that
    by (auto simp: truthy_strings_def truthy_def split: option.splits)
  then have no_learned:
    "concat (map (\<lambda>i. case key_learnings i of None \<Rightarrow> []
                      | Some kl \<Rightarrow> truthy_strings (whatWeLearned kl)) insights) = []"
    by simp
  have "key_insight_text [] = ''undefined''"
    by (simp add: key_insight_text_def)
  with assms(1) c show ?thesis
    by (simp add: processDataForDisplay_def Let_def no_learned)
qed

lemma key_learning_undefined_example:
  "\<exists>st'. processDataForDisplay insertion_sort_engine initial_analytics [insight_of [] []] =
           Inr st' \<and>
         keyInsightText (overviewStats st') = ''undefined''"
  using key_learning_undefined
    [where insights = "[insight_of [] []]" and engine_sort = insertion_sort_engine
       and st = initial_analytics]
  by (simp add: insight_of_def all_pain_points_def)

text \<open>
  Claim C10 at an input where it fails. A single record without a \<^verbatim>\<open>whatWeLearned\<close>
  string whose pain point "constructor" has the severity "high":
  \<^verbatim>\<open>painPointCounts["constructor"]\<close> is the function inherited from \<^verbatim>\<open>Object.prototype\<close>,
  its \<^verbatim>\<open>severities\<close> is \<^verbatim>\<open>undefined\<close>, and \<^verbatim>\<open>.push\<close> throws a TypeError inside the
  loop, before \<^verbatim>\<open>setOverviewStats\<close> is reached. The aggregation ends with that exception
  in every engine, and the key learning of the overview keeps its earlier value, from the
  initial state "N/A", where the claim says "undefined".
\<close>

theorem key_learning_inherited_name_throws:
  "processDataForDisplay engine_sort initial_analytics
     [insight_of [\<lparr>point = Some ''constructor'', severity = Some ''high''\<rparr>] []] =
     Inl (TypeError ''Cannot read properties of undefined (reading 'push')'', initial_analytics) \<and>
   keyInsightText (overviewStats initial_analytics) = ''N/A''"
  by (simp add: processDataForDisplay_def count_pain_points_def pain_point_step_def
      get_property_def object_prototype_names_def truthy_def insight_of_def Let_def
      initial_analytics_def)


section \<open>Properties of the interview page\<close>

subsection \<open>The closing phrase\<close>

lemma includes_iff: "string_includes s p \<longleftrightarrow> (\<exists>u w. s = u @ p @ w)"
proof (induction s)
  case Nil
  then show ?case by auto
next
  case (Cons c s)
  have "take (length p) (c # s) = p \<longleftrightarrow> (\<exists>w. c # s = p @ w)"
    by (metis append_eq_conv_conj)
  moreover have "(\<exists>u w. c # s = u @ p @ w) \<longleftrightarrow> (\<exists>w. c # s = p @ w) \<or> (\<exists>u w. s = u @ p @ w)"
    by (auto simp: Cons_eq_append_conv)
  ultimately show ?case using Cons.IH by simp
qed

text \<open>The test of the page finds a part of the text that equals the phrase once
  lower-cased.\<close>

lemma includes_toLowerCase:
  "string_includes (toLowerCase s) p \<longleftrightarrow> (\<exists>u v w. s = u @ v @ w \<and> toLowerCase v = p)"
proof
  assume "string_includes (toLowerCase s) p"
  then obtain a b where "map lower_char s = a @ (p @ b)"
    unfolding includes_iff toLowerCase_def by blast
  then obtain u r where ur: "s = u @ r" "p @ b = map lower_char r"
    unfolding map_eq_append_conv by blast
  from ur(2) obtain v w where "r = v @ w" "p = map lower_char v"
    unfolding append_eq_map_conv by blast
  with ur(1) have "s = u @ v @ w \<and> map lower_char v = p" by simp
  then show "\<exists>u v w. s = u @ v @ w \<and> toLowerCase v = p"
    unfolding toLowerCase_def by blast
next
  assume "\<exists>u v w. s = u @ v @ w \<and> toLowerCase v = p"
  then obtain u v w where "s = u @ v @ w" "map lower_char v = p"
    unfolding toLowerCase_def by blast
  then have "map lower_char s = map lower_char u @ p @ map lower_char w" by simp
  then show "string_includes (toLowerCase s) p"
    unfolding includes_iff toLowerCase_def by blast
qed

text \<open>What \<open>lower_char\<close> does, in character codes (by inspection of all 256
  characters).\<close>

lemma lower_char_code:
  "(of_char (lower_char c) :: nat) =
     (if (65 \<le> (of_char c :: nat) \<and> (of_char c :: nat) \<le> 90) \<or>
         (192 \<le> (of_char c :: nat) \<and> (of_char c :: nat) \<le> 222 \<and> (of_char c :: nat) \<noteq> 215)
      then of_char c + 32 else of_char c)"
proof (cases c)
  case (Char b0 b1 b2 b3 b4 b5 b6 b7)
  then show ?thesis
    by (cases b0; cases b1; cases b2; cases b3; cases b4; cases b5; cases b6; cases b7;
        simp add: lower_char_def upper_case_chars_def lower_case_chars_def)
qed

text \<open>Against a small letter or a space, lower-casing and comparing is comparing without
  regard to case.\<close>

lemma lower_char_same_letter:
  assumes "(of_char d :: nat) = 32 \<or> (97 \<le> (of_char d :: nat) \<and> (of_char d :: nat) \<le> 122)"
  shows "lower_char c = d \<longleftrightarrow> same_letter c d"
proof -
  define n m :: nat where "n = of_char c" and "m = of_char d"
  have eq: "lower_char c = d \<longleftrightarrow> (of_char (lower_char c) :: nat) = m" "c = d \<longleftrightarrow> n = m"
    by (simp_all add: n_def m_def)
  have "n < 256" by (simp add: n_def)
  with assms show ?thesis
    unfolding eq same_letter_def is_ascii_letter_def lower_char_code n_def [symmetric] m_def [symmetric]
    by auto
qed


lemma toLowerCase_equal_ignoring_case:
  assumes "\<forall>d \<in> set p. (of_char d :: nat) = 32 \<or> (97 \<le> (of_char d :: nat) \<and> (of_char d :: nat) \<le> 122)"
  shows "toLowerCase v = p \<longleftrightarrow> equal_ignoring_case v p"
  using assms
proof (induction v arbitrary: p)
  case Nil
  show ?case by (auto simp: toLowerCase_def equal_ignoring_case_def)
next
  case (Cons c v)
  show ?case
  proof (cases p)
    case Nil
    then show ?thesis by (simp add: toLowerCase_def equal_ignoring_case_def)
  next
    case (Cons d q)
    with Cons.prems Cons.IH [of q] lower_char_same_letter [of d c] show ?thesis
      by (simp add: toLowerCase_def equal_ignoring_case_def)
  qed
qed

lemma contains_ignoring_case_iff:
  "contains_ignoring_case s p \<longleftrightarrow> (\<exists>u v w. s = u @ v @ w \<and> equal_ignoring_case v p)"
proof (induction s)
  case Nil
  then show ?case by (auto simp: equal_ignoring_case_def)
next
  case (Cons c s)
  have here: "equal_ignoring_case (take (length p) (c # s)) p \<longleftrightarrow>
      (\<exists>v w. c # s = v @ w \<and> equal_ignoring_case v p)"
  proof
    assume "equal_ignoring_case (take (length p) (c # s)) p"
    moreover have "c # s = take (length p) (c # s) @ drop (length p) (c # s)" by simp
    ultimately show "\<exists>v w. c # s = v @ w \<and> equal_ignoring_case v p" by blast
  next
    assume "\<exists>v w. c # s = v @ w \<and> equal_ignoring_case v p"
    then obtain v w where vw: "c # s = v @ w" "equal_ignoring_case v p" by blast
    then have "length v = length p"
      by (simp add: equal_ignoring_case_def list_all2_lengthD)
    with vw show "equal_ignoring_case (take (length p) (c # s)) p" by simp
  qed
  have "(\<exists>u v w. c # s = u @ v @ w \<and> equal_ignoring_case v p) \<longleftrightarrow>
        (\<exists>v w. c # s = v @ w \<and> equal_ignoring_case v p) \<or>
        (\<exists>u v w. s = u @ v @ w \<and> equal_ignoring_case v p)"
  proof
    assume "\<exists>u v w. c # s = u @ v @ w \<and> equal_ignoring_case v p"
    then obtain u v w where uvw: "c # s = u @ v @ w" "equal_ignoring_case v p" by blast
    show "(\<exists>v w. c # s = v @ w \<and> equal_ignoring_case v p) \<or>
        (\<exists>u v w. s = u @ v @ w \<and> equal_ignoring_case v p)"
    proof (cases u)
      case Nil
      with uvw show ?thesis by auto
    next
      case (Cons a u')
      with uvw have "s = u' @ v @ w" by simp
      with uvw(2) show ?thesis by blast
    qed
  next
    assume "(\<exists>v w. c # s = v @ w \<and> equal_ignoring_case v p) \<or>
        (\<exists>u v w. s = u @ v @ w \<and> equal_ignoring_case v p)"
    then show "\<exists>u v w. c # s = u @ v @ w \<and> equal_ignoring_case v p"
    proof
      assume "\<exists>v w. c # s = v @ w \<and> equal_ignoring_case v p"
      then obtain v w where "c # s = [] @ v @ w" "equal_ignoring_case v p" by auto
      then show ?thesis by blast
    next
      assume "\<exists>u v w. s = u @ v @ w \<and> equal_ignoring_case v p"
      then obtain u v w where "c # s = (c # u) @ v @ w" "equal_ignoring_case v p" by auto
      then show ?thesis by blast
    qed
  qed
  with here Cons.IH show ?case by simp
qed

text \<open>The test of the page on the answer is the case-insensitive substring match of the
  specification.\<close>

lemma closing_phrase_test:
  "string_includes (toLowerCase answer) ''thank you for your time'' \<longleftrightarrow>
     contains_ignoring_case answer ''thank you for your time''"
proof -
  have "toLowerCase v = ''thank you for your time'' \<longleftrightarrow>
        equal_ignoring_case v ''thank you for your time''" for v
    by (rule toLowerCase_equal_ignoring_case) simp
  then show ?thesis
    by (simp only: includes_toLowerCase contains_ignoring_case_iff)
qed

subsection \<open>The three ways through handleSendMessage\<close>

lemma handleSendMessage_ignored:
  assumes "trim (currentMessage page) = [] \<or> projectDetails page = None \<or>
           founderPersona page = None \<or> \<not> truthy (currentInterviewId page) \<or>
           interviewConcluded page"
  shows "handleSendMessage env (page, db) = Inr (page, db)"
  using assms by (simp add: handleSendMessage_def)

lemma handleSendMessage_recovers:
  assumes "in_progress page" "trim (currentMessage page) \<noteq> []"
    "ai_message_content (ai_reply env) = Inl err"
  shows "handleSendMessage env (page, db) =
     Inr (page\<lparr>messages := messages page @
                   [userMessage env (trim (currentMessage page)), errorAiMsg env],
               currentMessage := [], isTyping := False\<rparr>,
          insert_conversation (insert_user_ok env)
            \<lparr>interview_id = the (currentInterviewId page), sender_type = ''user'',
             row_content = trim (currentMessage page)\<rparr> db)"
  using assms by (auto simp: handleSendMessage_def in_progress_def Let_def)

lemma handleSendMessage_answers:
  assumes "in_progress page" "trim (currentMessage page) \<noteq> []"
    "ai_message_content (ai_reply env) = Inr answer"
  shows "handleSendMessage env (page, db) =
     (let concludes =
            (4 \<le> length (filter (\<lambda>m. msg_type m = User)
                           (messages page @ [userMessage env (trim (currentMessage page)),
                                             aiMessage env answer])) \<or>
             string_includes (toLowerCase answer) ''thank you for your time'');
          db2 = insert_conversation (insert_ai_ok env)
                  \<lparr>interview_id = the (currentInterviewId page), sender_type = ''ai'',
                   row_content = answer\<rparr>
                  (insert_conversation (insert_user_ok env)
                     \<lparr>interview_id = the (currentInterviewId page), sender_type = ''user'',
                      row_content = trim (currentMessage page)\<rparr> db)
      in Inr (page\<lparr>messages := messages page @
                        [userMessage env (trim (currentMessage page)), aiMessage env answer],
                    currentMessage := [], isTyping := False,
                    interviewConcluded := concludes\<rparr>,
              if concludes
              then complete_interview (update_ok env) (the (currentInterviewId page))
                     (completed_now_iso env) db2
              else db2))"
  using assms by (auto simp: handleSendMessage_def in_progress_def Let_def)




text \<open>The conclusion is final: whatever replies follow, the interview stays concluded and
  neither the messages nor the stored conversation change.\<close>

lemma concluded_stays_concluded:
  assumes "interviewConcluded (fst st)"
  shows "\<exists>page' db'. submitReplies rs st = Inr (page', db') \<and> interviewConcluded page' \<and>
           messages page' = messages (fst st) \<and> db' = snd st"
  using assms
proof (induction rs arbitrary: st)
  case Nil
  then show ?case by (cases st) simp
next
  case (Cons r rs)
  obtain page db where st: "st = (page, db)" by (cases st)
  with Cons.prems
  have step: "submitReply (fst r) (snd r) st = Inr (page\<lparr>currentMessage := snd r\<rparr>, db)"
    by (simp add: submitReply_def handleSendMessage_ignored)
  from Cons.prems st Cons.IH [of "(page\<lparr>currentMessage := snd r\<rparr>, db)"] step
  show ?case by simp
qed

text \<open>A reply that is sent and answered in an interview in progress: the page and the
  store after it.\<close>

lemma submitReply_answered:
  assumes "in_progress page" "trim reply \<noteq> []"
    and "ai_message_content (ai_reply env) = Inr answer"
  shows "\<exists>page' db'. submitReply env reply (page, db) = Inr (page', db') \<and>
           messages page' = messages page @ [userMessage env (trim reply), aiMessage env answer] \<and>
           (interviewConcluded page' \<longleftrightarrow>
              4 \<le> respondent_turns (messages page') \<or>
              (\<exists>u v w. answer = u @ v @ w \<and> equal_ignoring_case v ''thank you for your time'')) \<and>
           (\<not> interviewConcluded page' \<longrightarrow> in_progress page') \<and>
           conversations db' = conversations db @
             (if insert_user_ok env
              then [\<lparr>interview_id = the (currentInterviewId page), sender_type = ''user'',
                     row_content = trim reply\<rparr>]
              else []) @
             (if insert_ai_ok env
              then [\<lparr>interview_id = the (currentInterviewId page), sender_type = ''ai'',
                     row_content = answer\<rparr>]
              else []) \<and>
           interviews db' =
             (if interviewConcluded page' \<and> update_ok env
              then map (\<lambda>r. if interview_row_id r = the (currentInterviewId page)
                             then r\<lparr>status := ''completed'',
                                    completed_at := Some (completed_now_iso env)\<rparr>
                             else r) (interviews db)
              else interviews db) \<and>
           insights_rows db' = insights_rows db"
proof -
  let ?typed = "page\<lparr>currentMessage := reply\<rparr>"
  from assms have typed: "in_progress ?typed" "trim (currentMessage ?typed) \<noteq> []"
    by (simp_all add: in_progress_def)
  have phrase: "string_includes (toLowerCase answer) ''thank you for your time'' \<longleftrightarrow>
      (\<exists>u v w. answer = u @ v @ w \<and> equal_ignoring_case v ''thank you for your time'')"
    by (simp only: closing_phrase_test contains_ignoring_case_iff)
  from assms(1) show ?thesis
    unfolding submitReply_def fst_conv snd_conv handleSendMessage_answers [OF typed assms(3)]
      phrase [symmetric]
    by (simp add: Let_def in_progress_def respondent_turns_def insert_conversation_def
        complete_interview_def)
qed

text \<open>Every reply submitted in an interview in progress returns; it concludes the interview
  exactly when the termination predicate holds, and leaves it in progress otherwise.\<close>

lemma submitReply_step:
  assumes "in_progress page"
  shows "\<exists>page' db'. submitReply env reply (page, db) = Inr (page', db') \<and>
           (interviewConcluded page' \<longleftrightarrow> concluding env reply page) \<and>
           (\<not> interviewConcluded page' \<longrightarrow> in_progress page')"
proof (cases "trim reply = []")
  case True
  with assms show ?thesis
    by (simp add: submitReply_def handleSendMessage_ignored concluding_def in_progress_def)
next
  case False
  let ?typed = "page\<lparr>currentMessage := reply\<rparr>"
  from assms False have typed: "in_progress ?typed" "trim (currentMessage ?typed) \<noteq> []"
    by (simp_all add: in_progress_def)
  show ?thesis
  proof (cases "ai_message_content (ai_reply env)")
    case (Inl err)
    with assms False show ?thesis
      by (simp add: submitReply_def handleSendMessage_recovers [OF typed Inl] concluding_def
          in_progress_def)
  next
    case (Inr answer)
    with assms False show ?thesis
      by (simp add: submitReply_def handleSendMessage_answers [OF typed Inr] concluding_def
          in_progress_def Let_def respondent_turns_def closing_phrase_test)
  qed
qed

text \<open>A sequence of replies returns; when it ends concluded, one of its replies was
  submitted in progress and satisfied the termination predicate, and the messages and
  the store are as that reply left them.\<close>

lemma first_concluding_reply:
  assumes "in_progress page"
  shows "\<exists>page_n db_n. submitReplies rs (page, db) = Inr (page_n, db_n) \<and>
           (\<not> interviewConcluded page_n \<longrightarrow> in_progress page_n) \<and>
           (interviewConcluded page_n \<longrightarrow>
              (\<exists>ps r qs page_i db_i page_c db_c.
                 rs = ps @ r # qs \<and> submitReplies ps (page, db) = Inr (page_i, db_i) \<and>
                 in_progress page_i \<and> concluding (fst r) (snd r) page_i \<and>
                 submitReply (fst r) (snd r) (page_i, db_i) = Inr (page_c, db_c) \<and>
                 messages page_n = messages page_c \<and> db_n = db_c))"
  using assms
proof (induction rs arbitrary: page db)
  case Nil
  then show ?case by (simp add: in_progress_def)
next
  case (Cons r rs)
  from submitReply_step [OF Cons.prems, of "fst r" "snd r" db]
  obtain page1 db1 where step: "submitReply (fst r) (snd r) (page, db) = Inr (page1, db1)"
      "interviewConcluded page1 \<longleftrightarrow> concluding (fst r) (snd r) page"
      "\<not> interviewConcluded page1 \<longrightarrow> in_progress page1"
    by blast
  show ?case
  proof (cases "interviewConcluded page1")
    case True
    with concluded_stays_concluded [of "(page1, db1)" rs]
    obtain page_n db_n where rest: "submitReplies rs (page1, db1) = Inr (page_n, db_n)"
        "interviewConcluded page_n" "messages page_n = messages page1" "db_n = db1"
      by auto
    have "r # rs = [] @ r # rs \<and> submitReplies [] (page, db) = Inr (page, db) \<and>
          in_progress page \<and> concluding (fst r) (snd r) page \<and>
          submitReply (fst r) (snd r) (page, db) = Inr (page1, db1) \<and>
          messages page_n = messages page1 \<and> db_n = db1"
      using Cons.prems step True rest by simp
    then have "\<exists>ps r' qs page_i db_i page_c db_c.
                 r # rs = ps @ r' # qs \<and> submitReplies ps (page, db) = Inr (page_i, db_i) \<and>
                 in_progress page_i \<and> concluding (fst r') (snd r') page_i \<and>
                 submitReply (fst r') (snd r') (page_i, db_i) = Inr (page_c, db_c) \<and>
                 messages page_n = messages page_c \<and> db_n = db_c"
      by blast
    with step(1) rest(1,2) show ?thesis by simp
  next
    case False
    with step(3) have "in_progress page1" by simp
    from Cons.IH [OF this, of db1]
    obtain page_n db_n where rest: "submitReplies rs (page1, db1) = Inr (page_n, db_n)"
        "\<not> interviewConcluded page_n \<longrightarrow> in_progress page_n"
        "interviewConcluded page_n \<longrightarrow>
              (\<exists>ps r qs page_i db_i page_c db_c.
                 rs = ps @ r # qs \<and> submitReplies ps (page1, db1) = Inr (page_i, db_i) \<and>
                 in_progress page_i \<and> concluding (fst r) (snd r) page_i \<and>
                 submitReply (fst r) (snd r) (page_i, db_i) = Inr (page_c, db_c) \<and>
                 messages page_n = messages page_c \<and> db_n = db_c)"
      by blast
    have "\<exists>ps r' qs page_i db_i page_c db_c.
                 r # rs = ps @ r' # qs \<and> submitReplies ps (page, db) = Inr (page_i, db_i) \<and>
                 in_progress page_i \<and> concluding (fst r') (snd r') page_i \<and>
                 submitReply (fst r') (snd r') (page_i, db_i) = Inr (page_c, db_c) \<and>
                 messages page_n = messages page_c \<and> db_n = db_c"
      if "interviewConcluded page_n"
    proof -
      from rest(3) that obtain ps r' qs page_i db_i page_c db_c where split:
          "rs = ps @ r' # qs" "submitReplies ps (page1, db1) = Inr (page_i, db_i)"
          "in_progress page_i" "concluding (fst r') (snd r') page_i"
          "submitReply (fst r') (snd r') (page_i, db_i) = Inr (page_c, db_c)"
          "messages page_n = messages page_c" "db_n = db_c"
        by blast
      from split(1) have "r # rs = (r # ps) @ r' # qs" by simp
      moreover from split(2) step(1)
      have "submitReplies (r # ps) (page, db) = Inr (page_i, db_i)" by simp
      ultimately show ?thesis using split(3-7) by blast
    qed
    with step(1) rest(1,2) show ?thesis by simp
  qed
qed

lemma submitReplies_append:
  "submitReplies (ps @ qs) st =
     (case submitReplies ps st of Inl e \<Rightarrow> Inl e | Inr st' \<Rightarrow> submitReplies qs st')"
  by (induction ps arbitrary: st) (simp_all split: sum.splits)

lemma concluding_reply_concludes:
  assumes "rs = ps @ r # qs" "submitReplies ps st = Inr (page_i, db_i)"
    and "in_progress page_i" "concluding (fst r) (snd r) page_i"
  shows "\<exists>page_n db_n. submitReplies rs st = Inr (page_n, db_n) \<and> interviewConcluded page_n"
proof -
  from submitReply_step [OF assms(3), of "fst r" "snd r" db_i] assms(4)
  obtain page_c db_c where step: "submitReply (fst r) (snd r) (page_i, db_i) = Inr (page_c, db_c)"
      "interviewConcluded page_c"
    by blast
  from concluded_stays_concluded [of "(page_c, db_c)" qs] step(2)
  obtain page_n db_n where "submitReplies qs (page_c, db_c) = Inr (page_n, db_n)"
      "interviewConcluded page_n"
    by auto
  with assms(1,2) step(1) show ?thesis
    by (simp add: submitReplies_append)
qed

lemmas session_eval = submitReply_def handleSendMessage_def Let_def example_page_def
  example_env_def example_db_def example_message_def trim_def is_whitespace_def
  ai_message_content_def truthy_def or_else_def toLowerCase_def lower_char_def
  upper_case_chars_def lower_case_chars_def userMessage_def aiMessage_def
  insert_conversation_def complete_interview_def in_progress_def respondent_turns_def

subsection \<open>The claims about the session\<close>

text \<open>
  Claim C1. In an interview in progress:

  \<^item> a reply that is sent (its trimmed text is not empty) and answered (the generation
    succeeds with the text \<open>answer\<close>) appends the respondent turn and the agent turn, and
    concludes the interview exactly when the messages then hold at least 4 respondent
    turns or some part of the answer equals "thank you for your time" but for the case of
    its letters; otherwise the interview is still in progress. The stored conversation
    gains the two turns (each if its request reaches the store), and the stored interview
    is marked completed, with the time of completion, exactly when the interview is
    concluded and the update reaches the store;

  \<^item> every sequence of replies returns, each reply with its own outside world, and it
    ends concluded exactly when one of its replies, submitted while the interview was in
    progress, satisfied the termination predicate \<open>concluding\<close>. That reply is the first
    one to satisfy it: all replies before it left the interview in progress, and the
    messages and the store at the end are as that reply left them. A sequence that does
    not end concluded ends in progress.
\<close>

theorem reply_concludes_exactly_when:
  assumes "in_progress page"
  shows "(\<forall>(env :: SendEnv) reply answer.
            trim reply \<noteq> [] \<and> ai_message_content (ai_reply env) = Inr answer \<longrightarrow>
            (\<exists>page' db'. submitReply env reply (page, db) = Inr (page', db') \<and>
               messages page' =
                 messages page @ [userMessage env (trim reply), aiMessage env answer] \<and>
               (interviewConcluded page' \<longleftrightarrow>
                  4 \<le> respondent_turns (messages page') \<or>
                  (\<exists>u v w. answer = u @ v @ w \<and>
                     equal_ignoring_case v ''thank you for your time'')) \<and>
               (\<not> interviewConcluded page' \<longrightarrow> in_progress page') \<and>
               conversations db' = conversations db @
                 (if insert_user_ok env
                  then [\<lparr>interview_id = the (currentInterviewId page), sender_type = ''user'',
                         row_content = trim reply\<rparr>]
                  else []) @
                 (if insert_ai_ok env
                  then [\<lparr>interview_id = the (currentInterviewId page), sender_type = ''ai'',
                         row_content = answer\<rparr>]
                  else []) \<and>
               interviews db' =
                 (if interviewConcluded page' \<and> update_ok env
                  then map (\<lambda>r. if interview_row_id r = the (currentInterviewId page)
                                 then r\<lparr>status := ''completed'',
                                        completed_at := Some (completed_now_iso env)\<rparr>
                                 else r) (interviews db)
                  else interviews db) \<and>
               insights_rows db' = insights_rows db)) \<and>
         (\<forall>rs. \<exists>page_n db_n. submitReplies rs (page, db) = Inr (page_n, db_n) \<and>
            (\<not> interviewConcluded page_n \<longrightarrow> in_progress page_n) \<and>
            (interviewConcluded page_n \<longleftrightarrow>
               (\<exists>ps r qs page_i db_i page_c db_c.
                  rs = ps @ r # qs \<and> submitReplies ps (page, db) = Inr (page_i, db_i) \<and>
                  in_progress page_i \<and> concluding (fst r) (snd r) page_i \<and>
                  submitReply (fst r) (snd r) (page_i, db_i) = Inr (page_c, db_c) \<and>
                  messages page_n = messages page_c \<and> db_n = db_c)))"
proof (intro conjI allI impI)
  fix env :: SendEnv and reply answer
  assume "trim reply \<noteq> [] \<and> ai_message_content (ai_reply env) = Inr answer"
  then show "\<exists>page' db'. submitReply env reply (page, db) = Inr (page', db') \<and>
               messages page' =
                 messages page @ [userMessage env (trim reply), aiMessage env answer] \<and>
               (interviewConcluded page' \<longleftrightarrow>
                  4 \<le> respondent_turns (messages page') \<or>
                  (\<exists>u v w. answer = u @ v @ w \<and>
                     equal_ignoring_case v ''thank you for your time'')) \<and>
               (\<not> interviewConcluded page' \<longrightarrow> in_progress page') \<and>
               conversations db' = conversations db @
                 (if insert_user_ok env
                  then [\<lparr>interview_id = the (currentInterviewId page), sender_type = ''user'',
                         row_content = trim reply\<rparr>]
                  else []) @
                 (if insert_ai_ok env
                  then [\<lparr>interview_id = the (currentInterviewId page), sender_type = ''ai'',
                         row_content = answer\<rparr>]
                  else []) \<and>
               interviews db' =
                 (if interviewConcluded page' \<and> update_ok env
                  then map (\<lambda>r. if interview_row_id r = the (currentInterviewId page)
                                 then r\<lparr>status := ''completed'',
                                        completed_at := Some (completed_now_iso env)\<rparr>
                                 else r) (interviews db)
                  else interviews db) \<and>
               insights_rows db' = insights_rows db"
    using submitReply_answered [OF assms, of reply env answer db] by blast
next
  fix rs
  from first_concluding_reply [OF assms, of rs db]
  obtain page_n db_n where seq: "submitReplies rs (page, db) = Inr (page_n, db_n)"
      "\<not> interviewConcluded page_n \<longrightarrow> in_progress page_n"
      "interviewConcluded page_n \<longrightarrow>
         (\<exists>ps r qs page_i db_i page_c db_c.
            rs = ps @ r # qs \<and> submitReplies ps (page, db) = Inr (page_i, db_i) \<and>
            in_progress page_i \<and> concluding (fst r) (snd r) page_i \<and>
            submitReply (fst r) (snd r) (page_i, db_i) = Inr (page_c, db_c) \<and>
            messages page_n = messages page_c \<and> db_n = db_c)"
    by blast
  have "interviewConcluded page_n"
    if "\<exists>ps r qs page_i db_i page_c db_c.
            rs = ps @ r # qs \<and> submitReplies ps (page, db) = Inr (page_i, db_i) \<and>
            in_progress page_i \<and> concluding (fst r) (snd r) page_i \<and>
            submitReply (fst r) (snd r) (page_i, db_i) = Inr (page_c, db_c) \<and>
            messages page_n = messages page_c \<and> db_n = db_c"
  proof -
    from that obtain ps r qs page_i db_i where "rs = ps @ r # qs"
        "submitReplies ps (page, db) = Inr (page_i, db_i)" "in_progress page_i"
        "concluding (fst r) (snd r) page_i"
      by blast
    from concluding_reply_concludes [OF this] seq(1) show ?thesis by simp
  qed
  with seq show "\<exists>page_n db_n. submitReplies rs (page, db) = Inr (page_n, db_n) \<and>
            (\<not> interviewConcluded page_n \<longrightarrow> in_progress page_n) \<and>
            (interviewConcluded page_n \<longleftrightarrow>
               (\<exists>ps r qs page_i db_i page_c db_c.
                  rs = ps @ r # qs \<and> submitReplies ps (page, db) = Inr (page_i, db_i) \<and>
                  in_progress page_i \<and> concluding (fst r) (snd r) page_i \<and>
                  submitReply (fst r) (snd r) (page_i, db_i) = Inr (page_c, db_c) \<and>
                  messages page_n = messages page_c \<and> db_n = db_c))"
    by blast
qed

text \<open>
  Three instances. One reply, answered "Great. THANK YOU for your Time!": one respondent
  turn, the interview is concluded by the phrase and the store holds the two turns and the
  status "completed". The scenario of the specification: after three replies answered
  "What else?" the interview is in progress and the stored status is "started"; the fourth
  reply concludes it, with four respondent turns and the stored status "completed".
\<close>

theorem reply_concludes_exactly_when_witness:
  "\<exists>page' db' page3 db3 page4 db4.
     submitReply
       (example_env (Data \<lparr>ai_error = None,
                           aiResponse = Some ''Great. THANK YOU for your Time!''\<rparr>))
       ''one'' (example_page [example_message Ai ''Hello''] [] False, example_db) =
       Inr (page', db') \<and>
     respondent_turns (messages page') = 1 \<and> interviewConcluded page' \<and>
     map status (interviews db') = [''completed''] \<and>
     map row_content (conversations db') = [''one'', ''Great. THANK YOU for your Time!''] \<and>
     submitReplies
       [(example_env (Data \<lparr>ai_error = None, aiResponse = Some ''What else?''\<rparr>), ''one''),
        (example_env (Data \<lparr>ai_error = None, aiResponse = Some ''What else?''\<rparr>), ''two''),
        (example_env (Data \<lparr>ai_error = None, aiResponse = Some ''What else?''\<rparr>), ''three'')]
       (example_page [example_message Ai ''Hello''] [] False, example_db) = Inr (page3, db3) \<and>
     in_progress page3 \<and> map status (interviews db3) = [''started''] \<and>
     submitReplies
       [(example_env (Data \<lparr>ai_error = None, aiResponse = Some ''What else?''\<rparr>), ''one''),
        (example_env (Data \<lparr>ai_error = None, aiResponse = Some ''What else?''\<rparr>), ''two''),
        (example_env (Data \<lparr>ai_error = None, aiResponse = Some ''What else?''\<rparr>), ''three''),
        (example_env (Data \<lparr>ai_error = None, aiResponse = Some ''What else?''\<rparr>), ''four'')]
       (example_page [example_message Ai ''Hello''] [] False, example_db) = Inr (page4, db4) \<and>
     interviewConcluded page4 \<and> respondent_turns (messages page4) = 4 \<and>
     map status (interviews db4) = [''completed'']"
proof -
  let ?page = "example_page [example_message Ai ''Hello''] [] False"
  let ?closing = "example_env (Data \<lparr>ai_error = None,
                                    aiResponse = Some ''Great. THANK YOU for your Time!''\<rparr>)"
  let ?asking = "example_env (Data \<lparr>ai_error = None, aiResponse = Some ''What else?''\<rparr>)"
  let ?rs3 = "[(?asking, ''one''), (?asking, ''two''), (?asking, ''three'')]"
  let ?r4 = "(?asking, ''four'')"
  have start: "in_progress ?page"
    by (simp add: in_progress_def example_page_def truthy_def)
  note claim = reply_concludes_exactly_when [OF start, of example_db]
  have sent: "trim ''one'' \<noteq> [] \<and>
      ai_message_content (ai_reply ?closing) = Inr ''Great. THANK YOU for your Time!''"
    by (simp add: trim_def is_whitespace_def ai_message_content_def example_env_def truthy_def
        or_else_def)
  from claim [THEN conjunct1, rule_format, OF sent]
  obtain page' db' where step:
      "submitReply ?closing ''one'' (?page, example_db) = Inr (page', db')"
      "messages page' = messages ?page @
         [userMessage ?closing (trim ''one''),
          aiMessage ?closing ''Great. THANK YOU for your Time!'']"
      "interviewConcluded page' \<longleftrightarrow>
         4 \<le> respondent_turns (messages page') \<or>
         (\<exists>u v w. ''Great. THANK YOU for your Time!'' = u @ v @ w \<and>
            equal_ignoring_case v ''thank you for your time'')"
      "conversations db' = conversations example_db @
         (if insert_user_ok ?closing
          then [\<lparr>interview_id = the (currentInterviewId ?page), sender_type = ''user'',
                 row_content = trim ''one''\<rparr>]
          else []) @
         (if insert_ai_ok ?closing
          then [\<lparr>interview_id = the (currentInterviewId ?page), sender_type = ''ai'',
                 row_content = ''Great. THANK YOU for your Time!''\<rparr>]
          else [])"
      "interviews db' =
         (if interviewConcluded page' \<and> update_ok ?closing
          then map (\<lambda>r. if interview_row_id r = the (currentInterviewId ?page)
                         then r\<lparr>status := ''completed'',
                                completed_at := Some (completed_now_iso ?closing)\<rparr>
                         else r) (interviews example_db)
          else interviews example_db)"
    by blast
  from step(2) have turns: "respondent_turns (messages page') = 1"
    by (simp add: respondent_turns_def example_page_def example_message_def userMessage_def
        aiMessage_def)
  have "contains_ignoring_case ''Great. THANK YOU for your Time!'' ''thank you for your time''"
    by (simp add: equal_ignoring_case_def same_letter_def is_ascii_letter_def)
  then have "\<exists>u v w. ''Great. THANK YOU for your Time!'' = u @ v @ w \<and>
            equal_ignoring_case v ''thank you for your time''"
    by (simp only: contains_ignoring_case_iff)
  with step(3) have concluded: "interviewConcluded page'" by blast
  from step(5) concluded have stored: "map status (interviews db') = [''completed'']"
    by (simp add: example_env_def example_db_def example_page_def)
  from step(4) have rows:
    "map row_content (conversations db') = [''one'', ''Great. THANK YOU for your Time!'']"
    by (simp add: example_env_def example_db_def trim_def is_whitespace_def)
  from claim [THEN conjunct2, rule_format, of ?rs3]
  obtain page3 db3 where three: "submitReplies ?rs3 (?page, example_db) = Inr (page3, db3)"
      "\<not> interviewConcluded page3 \<longrightarrow> in_progress page3"
    by blast
  have "map_sum id (\<lambda>st. (interviewConcluded (fst st), respondent_turns (messages (fst st)),
            map status (interviews (snd st))))
          (submitReplies ?rs3 (?page, example_db)) = Inr (False, 3, [''started''])"
    by (simp add: session_eval)
  with three have page3: "in_progress page3" "respondent_turns (messages page3) = 3"
      "map status (interviews db3) = [''started'']"
    by simp_all
  from claim [THEN conjunct2, rule_format, of "?rs3 @ [?r4]"]
  obtain page4 db4 where four: "submitReplies (?rs3 @ [?r4]) (?page, example_db) = Inr (page4, db4)"
      "interviewConcluded page4 \<longleftrightarrow>
         (\<exists>ps r qs page_i db_i page_c db_c.
            ?rs3 @ [?r4] = ps @ r # qs \<and> submitReplies ps (?page, example_db) = Inr (page_i, db_i) \<and>
            in_progress page_i \<and> concluding (fst r) (snd r) page_i \<and>
            submitReply (fst r) (snd r) (page_i, db_i) = Inr (page_c, db_c) \<and>
            messages page4 = messages page_c \<and> db4 = db_c)"
    by blast
  from four(1) three(1) have last: "submitReply (fst ?r4) (snd ?r4) (page3, db3) = Inr (page4, db4)"
    by (simp add: submitReplies_append split: sum.splits)
  have "concluding (fst ?r4) (snd ?r4) page3"
    using page3(2)
    by (simp add: concluding_def trim_def is_whitespace_def ai_message_content_def
        example_env_def truthy_def or_else_def respondent_turns_def userMessage_def aiMessage_def)
  with three(1) page3(1) last
  have "?rs3 @ [?r4] = ?rs3 @ ?r4 # [] \<and>
        submitReplies ?rs3 (?page, example_db) = Inr (page3, db3) \<and>
        in_progress page3 \<and> concluding (fst ?r4) (snd ?r4) page3 \<and>
        submitReply (fst ?r4) (snd ?r4) (page3, db3) = Inr (page4, db4) \<and>
        messages page4 = messages page4 \<and> db4 = db4"
    by simp
  then have "\<exists>ps r qs page_i db_i page_c db_c.
            ?rs3 @ [?r4] = ps @ r # qs \<and> submitReplies ps (?page, example_db) = Inr (page_i, db_i) \<and>
            in_progress page_i \<and> concluding (fst r) (snd r) page_i \<and>
            submitReply (fst r) (snd r) (page_i, db_i) = Inr (page_c, db_c) \<and>
            messages page4 = messages page_c \<and> db4 = db_c"
    by blast
  with four(2) have concluded4: "interviewConcluded page4" by blast
  have "map_sum id (\<lambda>st. (respondent_turns (messages (fst st)), map status (interviews (snd st))))
          (submitReplies (?rs3 @ [?r4]) (?page, example_db)) = Inr (4, [''completed''])"
    by (simp add: session_eval)
  with four(1) have page4: "respondent_turns (messages page4) = 4"
      "map status (interviews db4) = [''completed'']"
    by simp_all
  from step(1) turns concluded stored rows three(1) page3(1,3) four(1) concluded4 page4
  show ?thesis
    by - (rule exI [of _ page'], rule exI [of _ db'], rule exI [of _ page3],
          rule exI [of _ db3], rule exI [of _ page4], rule exI [of _ db4], simp)
qed

text \<open>
  Claim C2, as amended. In a concluded interview \<^verbatim>\<open>handleSendMessage\<close> returns at its guard
  for every reply text and in every outside world: the call returns normally, it signals
  no error, and the page and the store are unchanged, so no turn is added to the messages
  or to the stored conversation. The reply is ignored, not rejected with an error.
\<close>

theorem concluded_reply_ignored:
  assumes "interviewConcluded page"
  shows "handleSendMessage env (page, db) = Inr (page, db) \<and>
         submitReply env reply (page, db) = Inr (page\<lparr>currentMessage := reply\<rparr>, db)"
  using assms by (simp add: handleSendMessage_ignored submitReply_def)

theorem concluded_reply_ignored_witness:
  "\<exists>page' db'.
     submitReply (example_env (Data \<lparr>ai_error = None, aiResponse = Some ''Go on.''\<rparr>))
       ''one more thing''
       (example_page [example_message Ai ''Thank you for your time!''] [] True, example_db) =
       Inr (page', db') \<and>
     messages page' = [example_message Ai ''Thank you for your time!''] \<and>
     conversations db' = [] \<and> page_error page' = None"
  using concluded_reply_ignored
    [of "example_page [example_message Ai ''Thank you for your time!''] [] True"
        "example_env (Data \<lparr>ai_error = None, aiResponse = Some ''Go on.''\<rparr>)" example_db
        "''one more thing''"]
  by (simp add: example_page_def example_db_def)

text \<open>
  The claim as the specification words it fails: a reply sent on a concluded interview does
  not end in an error of any kind, it returns normally with the state it was called in.
\<close>

theorem concluded_reply_counterexample:
  "handleSendMessage (example_env (Data \<lparr>ai_error = None, aiResponse = Some ''Go on.''\<rparr>))
     (example_page [example_message Ai ''Thank you for your time!''] ''one more thing'' True,
      example_db) =
   Inr (example_page [example_message Ai ''Thank you for your time!''] ''one more thing'' True,
        example_db)"
  by (simp add: handleSendMessage_def example_page_def)





section \<open>Properties of the insight extraction\<close>

subsection \<open>When a record is written\<close>

lemma serve_rejects:
  assumes "completion_content env = Inr raw" "\<not> truthy raw \<or> isl (JSON_parse env (the raw))"
  shows "http_status (serve env req) \<noteq> 200 \<and> 400 \<le> http_status (serve env req)"
  using assms by (auto simp: serve_def error_response_def isl_def)

lemma serve_accepts:
  assumes "http_status (serve env req) < 300"
  shows "\<exists>raw parsed. completion_content env = Inr (Some raw) \<and> raw \<noteq> [] \<and>
           JSON_parse env raw = Inr parsed \<and> serve env req = \<lparr>http_status = 200, body = parsed\<rparr>"
  using assms
  by (auto simp: serve_def error_response_def truthy_def split: if_splits sum.splits option.splits)

lemma extract_and_save_rejects:
  assumes "completion_content env = Inr raw" "\<not> truthy raw \<or> isl (JSON_parse env (the raw))"
  shows "\<exists>e. extract_and_save env k details persona db = Inl e"
proof (cases "convoError env")
  case (Some m)
  then show ?thesis by (simp add: extract_and_save_def)
next
  case None
  let ?req = "\<lparr>productIdea = or_else (product_idea_prompt details) (pd_title details),
               requestPersona = persona,
               fullConversation =
                 map (\<lambda>r. (if sender_type r = ''ai'' then ''ai'' else ''user'', row_content r))
                   (filter (\<lambda>r. interview_id r = k) (conversations db))\<rparr>"
  have "\<exists>m. functions_invoke (invoke_fetch_error env) (serve env ?req) = FunctionsError m"
  proof (cases "invoke_fetch_error env")
    case None
    with serve_rejects [OF assms, of ?req] show ?thesis
      by (simp add: functions_invoke_def)
  next
    case (Some m)
    then show ?thesis by (simp add: functions_invoke_def)
  qed
  then obtain m where
    "functions_invoke (invoke_fetch_error env) (serve env ?req) = FunctionsError m"
    by blast
  with None show ?thesis
    by (simp add: extract_and_save_def Let_def)
qed

lemma extract_and_save_writes:
  assumes "extract_and_save env k details persona db = Inr db'"
  shows "\<exists>raw parsed. completion_content env = Inr (Some raw) \<and> raw \<noteq> [] \<and>
           JSON_parse env raw = Inr parsed \<and> parsed \<noteq> JNull \<and>
           \<not> truthy_json (optional_member (Some parsed) ''error'') \<and>
           db' = db\<lparr>insights_rows := insights_rows db @ [insight_row k details parsed]\<rparr>"
proof -
  let ?req = "\<lparr>productIdea = or_else (product_idea_prompt details) (pd_title details),
               requestPersona = persona,
               fullConversation =
                 map (\<lambda>r. (if sender_type r = ''ai'' then ''ai'' else ''user'', row_content r))
                   (filter (\<lambda>r. interview_id r = k) (conversations db))\<rparr>"
  from assms obtain extracted where inv:
      "functions_invoke (invoke_fetch_error env) (serve env ?req) = Data extracted"
    by (auto simp: extract_and_save_def Let_def split: option.splits invoke_result.splits)
  then have "http_status (serve env ?req) < 300" "body (serve env ?req) = extracted"
    by (auto simp: functions_invoke_def split: option.splits if_splits)
  with serve_accepts [of env ?req] obtain raw where raw:
      "completion_content env = Inr (Some raw)" "raw \<noteq> []" "JSON_parse env raw = Inr extracted"
    by auto
  from assms inv have "extracted \<noteq> JNull"
    "\<not> truthy_json (optional_member (Some extracted) ''error'')"
    "db' = db\<lparr>insights_rows := insights_rows db @ [insight_row k details extracted]\<rparr>"
    by (auto simp: extract_and_save_def Let_def member_def
        split: option.splits sum.splits if_splits json.splits)
  with raw show ?thesis by blast
qed

lemma extract_and_save_accepts:
  assumes "completion_content env = Inr (Some raw)" "raw \<noteq> []" "JSON_parse env raw = Inr parsed"
    and "parsed \<noteq> JNull" "\<not> truthy_json (optional_member (Some parsed) ''error'')"
    and "convoError env = None" "invoke_fetch_error env = None" "saveError env = None"
    and "or_else (product_idea_prompt details) (pd_title details) \<noteq> []"
    and "\<exists>r \<in> set (conversations db). interview_id r = k"
  shows "extract_and_save env k details persona db =
           Inr (db\<lparr>insights_rows := insights_rows db @ [insight_row k details parsed]\<rparr>)"
proof -
  from assms(10) have "filter (\<lambda>r. interview_id r = k) (conversations db) \<noteq> []"
    by (auto simp: filter_empty_conv)
  with assms(1-3,9) have "serve env
      \<lparr>productIdea = or_else (product_idea_prompt details) (pd_title details),
       requestPersona = persona,
       fullConversation =
         map (\<lambda>r. (if sender_type r = ''ai'' then ''ai'' else ''user'', row_content r))
           (filter (\<lambda>r. interview_id r = k) (conversations db))\<rparr> =
      \<lparr>http_status = 200, body = parsed\<rparr>"
    by (simp add: serve_def truthy_def)
  with assms(4-8) show ?thesis
    by (cases parsed) (simp_all add: extract_and_save_def Let_def functions_invoke_def member_def)
qed


subsection \<open>The claims about the extraction\<close>

text \<open>
  Claim C3, as amended. On a concluded interview, if the answer of the model is empty or
  is not valid JSON (\<^verbatim>\<open>JSON.parse\<close> throws), the run ends with an error message on the
  page and the store is unchanged: no insight record is written. The store changes only
  when the answer parses, and then by exactly the record built from the parsed value.
  No further validation takes place: a parsed object that lacks the \<^verbatim>\<open>painPoints\<close> key is
  accepted.
\<close>

theorem invalid_json_writes_no_record:
  assumes "ready_for_insights page"
  shows "(completion_content env = Inr raw \<and> (\<not> truthy raw \<or> isl (JSON_parse env (the raw))) \<longrightarrow>
            (\<exists>page'. processInsights env (page, db) = (page', db) \<and>
               insightsError page' \<noteq> None \<and> \<not> insightsSuccess page')) \<and>
         (snd (processInsights env (page, db)) \<noteq> db \<longrightarrow>
            (\<exists>answer parsed. completion_content env = Inr (Some answer) \<and>
               JSON_parse env answer = Inr parsed \<and>
               snd (processInsights env (page, db)) =
                 db\<lparr>insights_rows := insights_rows db @
                      [insight_row (the (currentInterviewId page)) (the (projectDetails page))
                         parsed]\<rparr> \<and>
               insightsSuccess (fst (processInsights env (page, db)))))"
proof (cases "extract_and_save env (the (currentInterviewId page)) (the (projectDetails page))
                (the (founderPersona page)) db")
  case (Inl e)
  with assms show ?thesis
    by (auto simp: processInsights_def ready_for_insights_def Let_def)
next
  case (Inr db')
  from extract_and_save_writes [OF Inr] obtain answer parsed where w:
      "completion_content env = Inr (Some answer)" "JSON_parse env answer = Inr parsed"
      "db' = db\<lparr>insights_rows := insights_rows db @
                [insight_row (the (currentInterviewId page)) (the (projectDetails page)) parsed]\<rparr>"
    by blast
  have "\<not> (completion_content env = Inr raw \<and> (\<not> truthy raw \<or> isl (JSON_parse env (the raw))))"
    using extract_and_save_rejects [of env raw "the (currentInterviewId page)"
        "the (projectDetails page)" "the (founderPersona page)" db] Inr
    by auto
  moreover from assms Inr have "processInsights env (page, db) =
      (page\<lparr>insightsLoading := False, insightsError := None, insightsSuccess := True\<rparr>, db')"
    by (auto simp: processInsights_def ready_for_insights_def Let_def)
  ultimately show ?thesis using w by auto
qed

theorem invalid_json_writes_no_record_witness:
  "\<exists>page'.
     processInsights
       (example_insights_env ''I could not analyse this.''
          (Inl ''Unexpected token I in JSON at position 0''))
       (example_page [] [] True, example_transcript) = (page', example_transcript) \<and>
     insightsError page' \<noteq> None \<and> \<not> insightsSuccess page'"
proof -
  let ?env = "example_insights_env ''I could not analyse this.''
                (Inl ''Unexpected token I in JSON at position 0'')"
  have "ready_for_insights (example_page [] [] True)"
    by (simp add: ready_for_insights_def example_page_def truthy_def)
  moreover have "completion_content ?env = Inr (Some ''I could not analyse this.'')"
    and "isl (JSON_parse ?env (the (Some ''I could not analyse this.'')))"
    by (simp_all add: example_insights_env_def)
  ultimately show ?thesis
    using invalid_json_writes_no_record
      [of "example_page [] [] True" ?env "Some ''I could not analyse this.''" example_transcript]
    by blast
qed

text \<open>
  The claim as the specification words it fails: the answer with an executive summary and
  without the \<^verbatim>\<open>painPoints\<close> key does not meet the output contract, yet the run succeeds
  and writes an insight record, with an empty list of pain points.
\<close>

theorem invalid_shape_counterexample:
  "\<not> satisfies_output_contract summary_only \<and>
   insights_rows
     (snd (processInsights (example_insights_env summary_only_text (Inr summary_only))
             (example_page [] [] True, example_transcript))) =
     [\<lparr>ins_interview_id = ''interview-1'', ins_project_id = ''project-1'',
       ins_user_id = ''founder-1'', ins_summary_text = JStr ''Cooking is a chore'',
       ins_key_learnings = JObj [(''whatWeLearned'', JStr ''Cooking is a chore'')],
       ins_pain_points = JArr [], ins_quotes = JArr [], ins_objections = JArr [],
       ins_product_ideas = JArr []\<rparr>] \<and>
   insightsSuccess
     (fst (processInsights (example_insights_env summary_only_text (Inr summary_only))
             (example_page [] [] True, example_transcript))) \<and>
   insightsError
     (fst (processInsights (example_insights_env summary_only_text (Inr summary_only))
             (example_page [] [] True, example_transcript))) = None"
  by (simp add: satisfies_output_contract_def summary_only_def summary_only_text_def
      processInsights_def extract_and_save_def example_insights_env_def example_page_def
      example_transcript_def example_db_def example_project_def example_persona_def
      truthy_def or_else_def serve_def functions_invoke_def member_def optional_member_def
      truthy_json_def json_or_def insight_row_def Let_def)

text \<open>
  Claim C4, as amended. An insight value is accepted whenever the answer of the model
  parses to a value other than \<^verbatim>\<open>null\<close> that has no truthy \<^verbatim>\<open>error\<close> member (and the
  requests of the run succeed); nothing checks its fields or the lengths of its lists
  before the record is created. The record takes the members \<^verbatim>\<open>executiveSummary\<close>,
  \<^verbatim>\<open>painPoints\<close>, \<^verbatim>\<open>notableQuotes\<close>, \<^verbatim>\<open>objections\<close> and \<^verbatim>\<open>productIdeas\<close> of the value,
  a falsy member replaced by its default, and no other member; a list of any length is
  stored as it is. The caps 5, 5, 3 and 3 stand only in the prompt.
\<close>

theorem accepted_insights_stored_as_given:
  assumes "ready_for_insights page"
    and "completion_content env = Inr (Some raw)" "raw \<noteq> []" "JSON_parse env raw = Inr parsed"
    and "parsed \<noteq> JNull" "\<not> truthy_json (optional_member (Some parsed) ''error'')"
    and "convoError env = None" "invoke_fetch_error env = None" "saveError env = None"
    and "or_else (product_idea_prompt (the (projectDetails page)))
           (pd_title (the (projectDetails page))) \<noteq> []"
    and "\<exists>r \<in> set (conversations db). interview_id r = the (currentInterviewId page)"
  shows "\<exists>page' row.
           processInsights env (page, db) = (page', db\<lparr>insights_rows := insights_rows db @ [row]\<rparr>) \<and>
           insightsSuccess page' \<and>
           row = insight_row (the (currentInterviewId page)) (the (projectDetails page)) parsed \<and>
           (\<forall>xs. optional_member (Some parsed) ''painPoints'' = Some (JArr xs) \<longrightarrow>
                 ins_pain_points row = JArr xs) \<and>
           (\<forall>xs. optional_member (Some parsed) ''notableQuotes'' = Some (JArr xs) \<longrightarrow>
                 ins_quotes row = JArr xs) \<and>
           (\<forall>xs. optional_member (Some parsed) ''objections'' = Some (JArr xs) \<longrightarrow>
                 ins_objections row = JArr xs) \<and>
           (\<forall>xs. optional_member (Some parsed) ''productIdeas'' = Some (JArr xs) \<longrightarrow>
                 ins_product_ideas row = JArr xs)"
proof -
  have "extract_and_save env (the (currentInterviewId page)) (the (projectDetails page))
          (the (founderPersona page)) db =
        Inr (db\<lparr>insights_rows := insights_rows db @
                  [insight_row (the (currentInterviewId page)) (the (projectDetails page)) parsed]\<rparr>)"
    using assms(2-11) by (rule extract_and_save_accepts)
  with assms(1) have "processInsights env (page, db) =
      (page\<lparr>insightsLoading := False, insightsError := None, insightsSuccess := True\<rparr>,
       db\<lparr>insights_rows := insights_rows db @
            [insight_row (the (currentInterviewId page)) (the (projectDetails page)) parsed]\<rparr>)"
    by (auto simp: processInsights_def ready_for_insights_def Let_def)
  then show ?thesis
    by (auto simp: insight_row_def json_or_def truthy_json_def)
qed

text \<open>An answer with six pain points is accepted and the six are stored.\<close>

theorem accepted_insights_stored_as_given_witness:
  "\<exists>page' row.
     processInsights (example_insights_env six_pain_points_text (Inr six_pain_points))
       (example_page [] [] True, example_transcript) =
       (page', example_transcript\<lparr>insights_rows := [row]\<rparr>) \<and>
     insightsSuccess page' \<and>
     ins_pain_points row =
       JArr [JObj [(''point'', JStr ''p1'')], JObj [(''point'', JStr ''p2'')],
             JObj [(''point'', JStr ''p3'')], JObj [(''point'', JStr ''p4'')],
             JObj [(''point'', JStr ''p5'')], JObj [(''point'', JStr ''p6'')]]"
proof -
  let ?env = "example_insights_env six_pain_points_text (Inr six_pain_points)"
  let ?page = "example_page [] [] True"
  have "ready_for_insights ?page"
    by (simp add: ready_for_insights_def example_page_def truthy_def)
  moreover have "completion_content ?env = Inr (Some six_pain_points_text)"
    "six_pain_points_text \<noteq> []" "JSON_parse ?env six_pain_points_text = Inr six_pain_points"
    "convoError ?env = None" "invoke_fetch_error ?env = None" "saveError ?env = None"
    by (simp_all add: example_insights_env_def six_pain_points_text_def)
  moreover have "six_pain_points \<noteq> JNull"
    "\<not> truthy_json (optional_member (Some six_pain_points) ''error'')"
    by (simp_all add: six_pain_points_def optional_member_def truthy_json_def)
  moreover have "or_else (product_idea_prompt (the (projectDetails ?page)))
           (pd_title (the (projectDetails ?page))) \<noteq> []"
    by (simp add: example_page_def example_project_def or_else_def)
  moreover have "\<exists>r \<in> set (conversations example_transcript).
                   interview_id r = the (currentInterviewId ?page)"
    by (simp add: example_transcript_def example_page_def)
  ultimately obtain page' row where r:
      "processInsights ?env (?page, example_transcript) =
         (page', example_transcript\<lparr>insights_rows := insights_rows example_transcript @ [row]\<rparr>)"
      "insightsSuccess page'"
      "\<forall>xs. optional_member (Some six_pain_points) ''painPoints'' = Some (JArr xs) \<longrightarrow>
                 ins_pain_points row = JArr xs"
    using accepted_insights_stored_as_given
      [of ?page ?env six_pain_points_text six_pain_points example_transcript]
    by blast
  have "insights_rows example_transcript = []"
    by (simp add: example_transcript_def example_db_def)
  moreover from r(3) have "ins_pain_points row =
       JArr [JObj [(''point'', JStr ''p1'')], JObj [(''point'', JStr ''p2'')],
             JObj [(''point'', JStr ''p3'')], JObj [(''point'', JStr ''p4'')],
             JObj [(''point'', JStr ''p5'')], JObj [(''point'', JStr ''p6'')]]"
    by (simp add: six_pain_points_def optional_member_def)
  ultimately show ?thesis using r(1,2)
    by - (rule exI [of _ page'], rule exI [of _ row], simp)
qed

text \<open>
  The claim as the specification words it fails: the answer whose only field is a list of
  six pain points has neither the five fields nor at most five pain points, and it is
  accepted and stored.
\<close>

theorem output_contract_counterexample:
  "\<not> satisfies_output_contract six_pain_points \<and>
   map ins_pain_points
     (insights_rows
        (snd (processInsights (example_insights_env six_pain_points_text (Inr six_pain_points))
                (example_page [] [] True, example_transcript)))) =
     [JArr [JObj [(''point'', JStr ''p1'')], JObj [(''point'', JStr ''p2'')],
            JObj [(''point'', JStr ''p3'')], JObj [(''point'', JStr ''p4'')],
            JObj [(''point'', JStr ''p5'')], JObj [(''point'', JStr ''p6'')]]] \<and>
   insightsSuccess
     (fst (processInsights (example_insights_env six_pain_points_text (Inr six_pain_points))
             (example_page [] [] True, example_transcript)))"
  by (simp add: satisfies_output_contract_def six_pain_points_def six_pain_points_text_def
      processInsights_def extract_and_save_def example_insights_env_def example_page_def
      example_transcript_def example_db_def example_project_def example_persona_def
      truthy_def or_else_def serve_def functions_invoke_def member_def optional_member_def
      truthy_json_def json_or_def insight_row_def Let_def json_length_at_most_def)


end
